theory Spec2Isabelle
  imports Complex_Main "HOL-Library.Log_Nat"
begin

section \<open>Raster values and Python errors\<close>

text \<open>
  \<^verbatim>\<open>read_raster\<close> returns the first band as a \<^verbatim>\<open>float32\<close> array. A sample is a finite
  number, an infinity or NaN. Finite samples are modelled by the real number they denote;
  threshold bounds come from the YAML file and are compared by numpy in the array's type,
  so they are values of the same kind (YAML's \<^verbatim>\<open>.inf\<close> and \<^verbatim>\<open>.nan\<close> included).
  Polygon areas and the bounds in hectares they are compared with are real numbers.
\<close>

datatype fval = Finite real | PosInf | NegInf | NaN

text \<open>IEEE comparison \<^verbatim>\<open>x <= y\<close>: false as soon as one side is NaN.\<close>

fun fle :: "fval \<Rightarrow> fval \<Rightarrow> bool" where
  "fle NaN y = False"
| "fle x NaN = False"
| "fle NegInf y = True"
| "fle x PosInf = True"
| "fle (Finite a) (Finite b) = (a \<le> b)"
| "fle PosInf y = False"
| "fle x NegInf = False"


definition is_finite :: "fval \<Rightarrow> bool" where
  "is_finite v = (case v of Finite a \<Rightarrow> True | _ \<Rightarrow> False)"

datatype error =
    KeyError string
  | ZeroDivisionError
  | ValueError
  | CRSError
  | RasterioIOError string

section \<open>Arrays\<close>

text \<open>
  A two-dimensional numpy array is the list of its rows. A mask is an array of flags:
  numpy's \<^verbatim>\<open>bool\<close> and the \<^verbatim>\<open>uint8\<close> values 0 and 1 the code converts between are both
  read as \<open>False\<close> and \<open>True\<close>.
\<close>

type_synonym 'a array = "'a list list"
type_synonym mask = "bool array"

definition shape :: "'a array \<Rightarrow> nat list" where
  "shape m = map length m"

definition nrows :: "'a array \<Rightarrow> nat" where
  "nrows m = length m"

definition ncols :: "'a array \<Rightarrow> nat" where
  "ncols m = (case m of [] \<Rightarrow> 0 | r # _ \<Rightarrow> length r)"

text \<open>Cell \<open>(i, j)\<close> of a mask, with everything outside the array read as background.\<close>

definition inb :: "'a array \<Rightarrow> int \<Rightarrow> int \<Rightarrow> bool" where
  "inb m i j = (0 \<le> i \<and> i < int (length m) \<and> 0 \<le> j \<and> j < int (length (m ! nat i)))"

definition cell :: "mask \<Rightarrow> int \<Rightarrow> int \<Rightarrow> bool" where
  "cell m i j = (inb m i j \<and> m ! nat i ! nat j)"

text \<open>\<^verbatim>\<open>arr >= t\<close> and \<^verbatim>\<open>arr <= t\<close>: elementwise comparison with a scalar.\<close>

definition np_ge :: "fval array \<Rightarrow> fval \<Rightarrow> mask" where
  "np_ge arr t = map (map (\<lambda>v. fle t v)) arr"

definition np_le :: "fval array \<Rightarrow> fval \<Rightarrow> mask" where
  "np_le arr t = map (map (\<lambda>v. fle v t)) arr"

text \<open>
  \<^verbatim>\<open>a & b\<close> on boolean arrays. Arrays of one shape are combined cell by cell. Otherwise
  numpy broadcasts: along each axis the lengths must agree or one of them must be 1 (that
  operand is repeated, which \<open>bat\<close> does by reading its only row or column), else it
  raises \<^verbatim>\<open>ValueError\<close>. The column count is read off the first row, numpy arrays being
  rectangular.
\<close>

definition bdim :: "nat \<Rightarrow> nat \<Rightarrow> nat option" where
  "bdim n m = (if n = m then Some n else if n = 1 then Some m else if m = 1 then Some n else None)"

definition bat :: "mask \<Rightarrow> nat \<Rightarrow> nat \<Rightarrow> bool" where
  "bat a i j = a ! (if nrows a = 1 then 0 else i) ! (if ncols a = 1 then 0 else j)"

definition logical_and :: "mask \<Rightarrow> mask \<Rightarrow> mask" where
  "logical_and a b = map2 (map2 (\<and>)) a b"

definition np_and :: "mask \<Rightarrow> mask \<Rightarrow> error + mask" where
  "np_and a b =
     (if shape a = shape b then Inr (logical_and a b)
      else case (bdim (nrows a) (nrows b), bdim (ncols a) (ncols b)) of
             (Some r, Some c) \<Rightarrow>
               Inr (map (\<lambda>i. map (\<lambda>j. bat a i j \<and> bat b i j) [0..<c]) [0..<r])
           | _ \<Rightarrow> Inl ValueError)"

section \<open>Morphological cleaning\<close>

text \<open>
  \<^verbatim>\<open>disk(radius)\<close>: the \<open>L \<times> L\<close> array, \<open>L = 2 * radius + 1\<close>, that is set where
  \<open>(x - radius)\<^sup>2 + (y - radius)\<^sup>2 \<le> radius\<^sup>2\<close>.
\<close>

definition disk :: "int \<Rightarrow> mask" where
  "disk radius =
     (let L = 2 * radius + 1
      in map (\<lambda>y. map (\<lambda>x. (x - radius)\<^sup>2 + (y - radius)\<^sup>2 \<le> radius\<^sup>2) [0..L - 1]) [0..L - 1])"

text \<open>
  The offsets of a structuring element from its centre, the cell at half its extent along
  each axis (scipy's \<^verbatim>\<open>origin=0\<close>).
\<close>

definition offsets :: "mask \<Rightarrow> (int \<times> int) list" where
  "offsets s =
     concat (map (\<lambda>i. map (\<lambda>j. (int i - int (nrows s div 2), int j - int (ncols s div 2)))
                          (filter (\<lambda>j. s ! i ! j) [0..<length (s ! i)]))
                 [0..<length s])"

text \<open>
  \<^verbatim>\<open>scipy.ndimage.binary_erosion\<close> with \<^verbatim>\<open>border_value=0\<close>, one iteration: a cell stays set
  when every cell under the structuring element lies inside the array and is set.
  \<^verbatim>\<open>binary_dilation\<close> runs the same scan on the complement with the reflected element: a
  cell is set when some cell under the reflected element lies inside the array and is set.
\<close>

definition binary_erosion :: "mask \<Rightarrow> mask \<Rightarrow> mask" where
  "binary_erosion m s =
     map (\<lambda>i. map (\<lambda>j. \<forall>(di, dj) \<in> set (offsets s). cell m (int i + di) (int j + dj))
                   [0..<length (m ! i)])
         [0..<length m]"

definition binary_dilation :: "mask \<Rightarrow> mask \<Rightarrow> mask" where
  "binary_dilation m s =
     map (\<lambda>i. map (\<lambda>j. \<exists>(di, dj) \<in> set (offsets s). cell m (int i - di) (int j - dj))
                   [0..<length (m ! i)])
         [0..<length m]"

definition binary_opening :: "mask \<Rightarrow> mask \<Rightarrow> mask" where
  "binary_opening m s = binary_dilation (binary_erosion m s) s"

definition binary_closing :: "mask \<Rightarrow> mask \<Rightarrow> mask" where
  "binary_closing m s = binary_erosion (binary_dilation m s) s"

definition binary_morphology :: "mask \<Rightarrow> int \<Rightarrow> int \<Rightarrow> mask" where
  "binary_morphology m open_radius close_radius =
     (let out = m;
          out = (if open_radius > 0 then binary_opening out (disk open_radius) else out);
          out = (if close_radius > 0 then binary_closing out (disk close_radius) else out)
      in out)"

section \<open>Region labelling\<close>

text \<open>
  \<^verbatim>\<open>ndi.label(mask)\<close> is called without a \<^verbatim>\<open>structure\<close> argument, so scipy uses
  \<^verbatim>\<open>generate_binary_structure(2, 1)\<close>: the cross, under which two set cells are neighbours
  when they share an edge.
\<close>

type_synonym pos = "nat \<times> nat"

definition generate_binary_structure :: mask where
  "generate_binary_structure = [[False, True, False], [True, True, True], [False, True, False]]"

definition neighbours :: "mask \<Rightarrow> pos \<Rightarrow> pos \<Rightarrow> bool" where
  "neighbours s p q =
     ((int (fst q) - int (fst p), int (snd q) - int (snd p)) \<in> set (offsets s))"

text \<open>The set cells of a mask in scan order (row by row, left to right).\<close>

definition ones :: "mask \<Rightarrow> pos list" where
  "ones m =
     concat (map (\<lambda>i. map (\<lambda>j. (i, j)) (filter (\<lambda>j. m ! i ! j) [0..<length (m ! i)]))
                 [0..<length m])"

text \<open>
  One round of flooding keeps the cells that have a neighbour in the region found so far
  (the centre of the structuring element makes a cell its own neighbour). A region cannot
  grow more often than there are cells, so that many rounds from a seed give the seed's
  whole region, in scan order.
\<close>

definition grow :: "mask \<Rightarrow> pos list \<Rightarrow> pos list \<Rightarrow> pos list" where
  "grow s cells reg = filter (\<lambda>q. \<exists>p \<in> set reg. neighbours s p q) cells"

definition component :: "mask \<Rightarrow> pos list \<Rightarrow> pos \<Rightarrow> pos list" where
  "component s cells p = (grow s cells ^^ length cells) [p]"

text \<open>The position of the first occurrence of \<open>x\<close> in a list.\<close>

definition index_of :: "'a \<Rightarrow> 'a list \<Rightarrow> nat" where
  "index_of x xs = length (takeWhile (\<lambda>y. y \<noteq> x) xs)"

text \<open>
  The result of \<^verbatim>\<open>scipy.ndimage.label\<close>: regions are numbered 1, 2, ... in the order in
  which the scan meets their first cell; every cell of a region carries the region's
  number and background cells carry 0. The second component is the number of regions.
\<close>

definition label_with :: "mask \<Rightarrow> mask \<Rightarrow> nat array \<times> nat" where
  "label_with s m =
     (let cells = ones m;
          first = (\<lambda>p. hd (component s cells p));
          firsts = filter (\<lambda>p. first p = p) cells
      in (map (\<lambda>i. map (\<lambda>j. if m ! i ! j then Suc (index_of (first (i, j)) firsts) else 0)
                          [0..<length (m ! i)])
              [0..<length m],
          length firsts))"

definition label :: "mask \<Rightarrow> nat array \<times> nat" where
  "label m = label_with generate_binary_structure m"

section \<open>Region size filter\<close>

record affine =
  coef_a :: real
  coef_b :: real
  coef_c :: real
  coef_d :: real
  coef_e :: real
  coef_f :: real

datatype crs = CRS (crs_name: string) (is_geographic: bool)

record meta =
  transform :: affine
  meta_crs :: "crs option"

record processing =
  ndvi_range :: "(fval \<times> fval) option"
  gndvi_range :: "(fval \<times> fval) option"
  evi2_range :: "(fval \<times> fval) option"
  morph_open_radius :: int
  morph_close_radius :: int
  min_area_ha :: real
  max_area_ha :: real

text \<open>
  The minimum pixel count is computed in Python floats, that is IEEE double precision: 53
  significant bits, every operation rounded to the nearest double with ties going to the
  even significand. \<open>ilog2 x\<close> is the exponent \<open>\<lfloor>log\<^sub>2 x\<rfloor>\<close> of a positive number, \<open>rne\<close>
  rounds to the nearest integer with ties to even, and \<open>round_double x\<close> is the double
  nearest to \<open>x\<close>. The range of the exponent is not bounded in the model: overflow to
  infinity and gradual underflow are left out.
\<close>

definition ilog2 :: "real \<Rightarrow> int" where
  "ilog2 x = (if 1 \<le> x then bitlen \<lfloor>x\<rfloor> - 1 else - bitlen (\<lceil>1 / x\<rceil> - 1))"

definition pow2 :: "int \<Rightarrow> real" where
  "pow2 n = 2 powi n"

definition rne :: "real \<Rightarrow> int" where
  "rne y =
     (let f = \<lfloor>y\<rfloor>; r = y - of_int f
      in if r < 1 / 2 then f else if 1 / 2 < r then f + 1 else if even f then f else f + 1)"

definition round_double :: "real \<Rightarrow> real" where
  "round_double x =
     (if x = 0 then 0
      else let ulp = pow2 (ilog2 \<bar>x\<bar> - 52)
           in sgn x * of_int (rne (\<bar>x\<bar> / ulp)) * ulp)"

text \<open>Multiplication and division of doubles: the exact result, rounded.\<close>

definition double_mul :: "real \<Rightarrow> real \<Rightarrow> real" where
  "double_mul x y = round_double (x * y)"

definition double_div :: "real \<Rightarrow> real \<Rightarrow> real" where
  "double_div x y = round_double (x / y)"

text \<open>Python's \<^verbatim>\<open>int(x)\<close> on a float: truncation towards zero.\<close>

definition py_int :: "real \<Rightarrow> int" where
  "py_int x = (if 0 \<le> x then \<lfloor>x\<rfloor> else \<lceil>x\<rceil>)"

text \<open>
  \<^verbatim>\<open>pixel_area_m2 = abs(meta["transform"].a) * abs(meta["transform"].e)\<close>. A field of the
  transform or of the configuration holds the number as it is written; the program sees
  the double nearest to it, which is the number itself when it is a double.
\<close>

definition pixel_area_m2 :: "meta \<Rightarrow> real" where
  "pixel_area_m2 mt =
     double_mul \<bar>round_double (coef_a (transform mt))\<bar> \<bar>round_double (coef_e (transform mt))\<bar>"

text \<open>
  \<^verbatim>\<open>min_pixels = int((proc["min_area_ha"] * 10000) / pixel_area_m2)\<close>; Python's float
  division raises on a zero divisor.
\<close>

definition min_pixels :: "processing \<Rightarrow> meta \<Rightarrow> error + int" where
  "min_pixels proc mt =
     (if pixel_area_m2 mt = 0 then Inl ZeroDivisionError
      else Inr (py_int (double_div (double_mul (round_double (min_area_ha proc)) 10000)
                                    (pixel_area_m2 mt))))"

definition zeros_like :: "'a array \<Rightarrow> mask" where
  "zeros_like m = map (map (\<lambda>_. False)) m"

text \<open>\<^verbatim>\<open>region.sum()\<close>: the number of set cells.\<close>

definition np_sum :: "mask \<Rightarrow> nat" where
  "np_sum m = sum_list (map (\<lambda>row. length (filter (\<lambda>x. x) row)) m)"

text \<open>\<^verbatim>\<open>clean[region] = 1\<close>: set the cells that the boolean index selects.\<close>

definition assign_where :: "mask \<Rightarrow> mask \<Rightarrow> mask" where
  "assign_where clean region = map2 (map2 (\<lambda>c r. if r then True else c)) clean region"

text \<open>
  The loop over the labels \<open>1, ..., n\<close> (lines 74 to 78, and again 131 to 135): a region
  is copied into the clean mask when it has at least \<open>min_pixels\<close> cells.
\<close>

definition keep_region :: "nat array \<Rightarrow> int \<Rightarrow> nat \<Rightarrow> mask \<Rightarrow> mask" where
  "keep_region labeled mp i clean =
     (let region = map (map (\<lambda>l. l = i)) labeled
      in if int (np_sum region) \<ge> mp then assign_where clean region else clean)"

definition size_filter :: "mask \<Rightarrow> int \<Rightarrow> mask" where
  "size_filter m mp =
     (case label m of (labeled, n) \<Rightarrow>
        fold (keep_region labeled mp) [1..<n + 1] (zeros_like m))"

section \<open>Vectorizing and areas\<close>

text \<open>
  \<^verbatim>\<open>rasterio.features.shapes\<close> traces one polygon around every connected region of equal
  value inside the mask; its default connectivity is 4, the same neighbourhood as the
  labelling above. A polygon is kept as the cells it encloses together with the transform
  that places them in world coordinates; the polygons are listed in the order of the
  labels of their regions.
\<close>

datatype geometry = Polygon (pixels: "pos list") (placed: affine)

record gdf =
  geometry_col :: "geometry list"
  area_ha_col :: "real list option"
  gdf_crs :: "crs option"

definition shapes :: "mask \<Rightarrow> affine \<Rightarrow> geometry list" where
  "shapes m t =
     (case label m of (labeled, n) \<Rightarrow>
        map (\<lambda>i. Polygon (filter (\<lambda>p. labeled ! fst p ! snd p = i) (ones m)) t) [1..<n + 1])"

definition raster_to_polygons :: "mask \<Rightarrow> meta \<Rightarrow> gdf" where
  "raster_to_polygons m mt =
     (let geoms = shapes m (transform mt)
      in if geoms = [] then \<lparr>geometry_col = [], area_ha_col = None, gdf_crs = meta_crs mt\<rparr>
         else \<lparr>geometry_col = geoms, area_ha_col = None, gdf_crs = meta_crs mt\<rparr>)"

text \<open>
  The area of a polygon in the units of its own coordinates: each enclosed cell is mapped
  by the transform to a parallelogram of area \<open>|a e - b d|\<close>.
\<close>

definition area :: "geometry \<Rightarrow> real" where
  "area g = real (length (pixels g)) *
            \<bar>coef_a (placed g) * coef_e (placed g) - coef_b (placed g) * coef_d (placed g)\<bar>"

definition empty :: "gdf \<Rightarrow> bool" where
  "empty g = (geometry_col g = [])"

text \<open>
  \<^verbatim>\<open>compute_area_ha\<close>. The argument \<open>utm_area\<close> stands for
  \<^verbatim>\<open>gdf.to_crs(gdf.estimate_utm_crs()).geometry.area\<close>: the area in square metres of a
  geometry's reprojected copy. \<^verbatim>\<open>pyproj.CRS(None)\<close> raises.
\<close>

definition compute_area_ha :: "(geometry \<Rightarrow> real) \<Rightarrow> gdf \<Rightarrow> error + gdf" where
  "compute_area_ha utm_area g =
     (if empty g then Inr (g\<lparr>area_ha_col := Some []\<rparr>)
      else case gdf_crs g of
             None \<Rightarrow> Inl CRSError
           | Some c \<Rightarrow>
               let proj_area = (if is_geographic c then utm_area else area)
               in Inr (g\<lparr>area_ha_col := Some (map (\<lambda>x. proj_area x / 10000) (geometry_col g))\<rparr>))"

text \<open>
  Line 82 (and 139): the rows whose \<^verbatim>\<open>area_ha\<close> lies between the two bounds, as a copy.
\<close>

definition select :: "bool list \<Rightarrow> 'a list \<Rightarrow> 'a list" where
  "select keep xs = map snd (filter fst (zip keep xs))"

definition area_filter :: "gdf \<Rightarrow> processing \<Rightarrow> error + gdf" where
  "area_filter g proc =
     (case area_ha_col g of
        None \<Rightarrow> Inl (KeyError ''area_ha'')
      | Some areas \<Rightarrow>
          let keep = map (\<lambda>x. min_area_ha proc \<le> x \<and> x \<le> max_area_ha proc) areas
          in Inr (g\<lparr>geometry_col := select keep (geometry_col g),
                    area_ha_col := Some (select keep areas)\<rparr>))"

section \<open>The per-layer pipeline\<close>

text \<open>Line 67: \<^verbatim>\<open>(arr >= val_range[0]) & (arr <= val_range[1])\<close>.\<close>

definition threshold_mask :: "fval array \<Rightarrow> fval \<times> fval \<Rightarrow> error + mask" where
  "threshold_mask arr val_range = np_and (np_ge arr (fst val_range)) (np_le arr (snd val_range))"

text \<open>\<^verbatim>\<open>os.path.join\<close> on POSIX paths.\<close>

definition join2 :: "string \<Rightarrow> string \<Rightarrow> string" where
  "join2 path b =
     (if b \<noteq> [] \<and> hd b = CHR ''/'' then b
      else if path = [] \<or> last path = CHR ''/'' then path @ b
      else path @ ''/'' @ b)"

definition os_path_join :: "string \<Rightarrow> string list \<Rightarrow> string" where
  "os_path_join a ps = foldl join2 a ps"

text \<open>
  The files written by \<^verbatim>\<open>to_file\<close> so far: path, driver and contents, oldest first.
\<close>

type_synonym files = "(string \<times> string \<times> gdf) list"

definition process_index_to_vectors ::
  "(geometry \<Rightarrow> real) \<Rightarrow> string \<Rightarrow> fval array \<Rightarrow> meta \<Rightarrow> fval \<times> fval \<Rightarrow> processing \<Rightarrow>
   string \<Rightarrow> string \<Rightarrow> files \<Rightarrow> files \<times> (error + (string \<times> gdf) option)" where
  "process_index_to_vectors utm_area name arr mt val_range proc out_dir fmt written =
     (case threshold_mask arr val_range of
        Inl err \<Rightarrow> (written, Inl err)
      | Inr m0 \<Rightarrow>
          let m = binary_morphology m0 (morph_open_radius proc) (morph_close_radius proc)
          in case min_pixels proc mt of
               Inl err \<Rightarrow> (written, Inl err)
             | Inr mp \<Rightarrow>
                 let clean = size_filter m mp
                 in case compute_area_ha utm_area (raster_to_polygons clean mt) of
                      Inl err \<Rightarrow> (written, Inl err)
                    | Inr g1 \<Rightarrow>
                        (case area_filter g1 proc of
                           Inl err \<Rightarrow> (written, Inl err)
                         | Inr g \<Rightarrow>
                             if empty g then (written, Inr None)
                             else
                               let out_name = (if fmt = ''GPKG'' then name @ ''_polygons.gpkg''
                                               else name @ ''_polygons.shp'');
                                   out_path = os_path_join out_dir [out_name];
                                   driver = (if fmt = ''GPKG'' then ''GPKG'' else ''ESRI Shapefile'')
                               in (written @ [(out_path, driver, g)], Inr (Some (out_path, g)))))"

section \<open>The run over three layers and their intersection\<close>

record paths =
  ndvi_path :: "string option"
  gndvi_path :: "string option"
  evi2_path :: "string option"
  output_dir :: string

record output_opts =
  vector_format :: "string option"

record config =
  cfg_paths :: paths
  cfg_processing :: processing
  cfg_output :: output_opts

text \<open>\<^verbatim>\<open>d.get(key) or default\<close>: a missing or empty entry gives the default.\<close>

definition get_or :: "string option \<Rightarrow> string \<Rightarrow> string" where
  "get_or v dflt = (case v of None \<Rightarrow> dflt | Some s \<Rightarrow> if s = [] then dflt else s)"

text \<open>\<^verbatim>\<open>str.upper\<close> on ASCII text.\<close>

definition upper_char :: "char \<Rightarrow> char" where
  "upper_char ch =
     (let n = (of_char ch :: nat) in if 97 \<le> n \<and> n \<le> 122 then char_of (n - 32) else ch)"

definition upper :: "string \<Rightarrow> string" where
  "upper s = map upper_char s"

text \<open>The rasters on disk: \<^verbatim>\<open>read_raster\<close> fails on a path that holds none.\<close>

definition read_raster :: "(string \<Rightarrow> (fval array \<times> meta) option) \<Rightarrow> string \<Rightarrow> error + fval array \<times> meta" where
  "read_raster fs path = (case fs path of None \<Rightarrow> Inl (RasterioIOError path) | Some r \<Rightarrow> Inr r)"

text \<open>
  Lines 123 to 125: the six comparisons joined by \<^verbatim>\<open>&\<close>, which associates to the left.
\<close>

definition combined_mask ::
  "fval array \<Rightarrow> fval \<times> fval \<Rightarrow> fval array \<Rightarrow> fval \<times> fval \<Rightarrow> fval array \<Rightarrow> fval \<times> fval \<Rightarrow> error + mask" where
  "combined_mask ndvi r1 gndvi r2 evi2 r3 =
     (case np_and (np_ge ndvi (fst r1)) (np_le ndvi (snd r1)) of
        Inl err \<Rightarrow> Inl err
      | Inr c1 \<Rightarrow>
     (case np_and c1 (np_ge gndvi (fst r2)) of
        Inl err \<Rightarrow> Inl err
      | Inr c2 \<Rightarrow>
     (case np_and c2 (np_le gndvi (snd r2)) of
        Inl err \<Rightarrow> Inl err
      | Inr c3 \<Rightarrow>
     (case np_and c3 (np_ge evi2 (fst r3)) of
        Inl err \<Rightarrow> Inl err
      | Inr c4 \<Rightarrow> np_and c4 (np_le evi2 (snd r3))))))"

text \<open>\<^verbatim>\<open>if res: results[name] = res[0]\<close>.\<close>

definition store :: "string \<Rightarrow> (string \<times> gdf) option \<Rightarrow> (string \<times> string) list \<Rightarrow> (string \<times> string) list" where
  "store name res results = (case res of None \<Rightarrow> results | Some r \<Rightarrow> results @ [(name, fst r)])"

text \<open>Lines 122 to 150: the intersection of the three layers.\<close>

definition run_combined ::
  "(geometry \<Rightarrow> real) \<Rightarrow> fval array \<Rightarrow> fval \<times> fval \<Rightarrow> fval array \<Rightarrow> fval \<times> fval \<Rightarrow> fval array \<Rightarrow>
   fval \<times> fval \<Rightarrow> meta \<Rightarrow> processing \<Rightarrow> string \<Rightarrow> string \<Rightarrow> (string \<times> string) list \<Rightarrow> files \<Rightarrow>
   files \<times> (error + (string \<times> string) list)" where
  "run_combined utm_area ndvi r1 gndvi r2 evi2 r3 mt proc outdir fmt results written =
     (case combined_mask ndvi r1 gndvi r2 evi2 r3 of
        Inl err \<Rightarrow> (written, Inl err)
      | Inr c0 \<Rightarrow>
          let combined = binary_morphology c0 (morph_open_radius proc) (morph_close_radius proc)
          in case min_pixels proc mt of
               Inl err \<Rightarrow> (written, Inl err)
             | Inr mp \<Rightarrow>
                 let final_mask = size_filter combined mp
                 in case compute_area_ha utm_area (raster_to_polygons final_mask mt) of
                      Inl err \<Rightarrow> (written, Inl err)
                    | Inr g1 \<Rightarrow>
                        (case area_filter g1 proc of
                           Inl err \<Rightarrow> (written, Inl err)
                         | Inr palm_gdf \<Rightarrow>
                             if empty palm_gdf then (written, Inr results)
                             else
                               let palm_name = (if fmt = ''GPKG'' then ''Palm_Combined.gpkg''
                                                else ''Palm_Combined.shp'');
                                   palm_path = os_path_join outdir [palm_name];
                                   driver = (if fmt = ''GPKG'' then ''GPKG'' else ''ESRI Shapefile'')
                               in (written @ [(palm_path, driver, palm_gdf)],
                                   Inr (results @ [(''Palm_Combined'', palm_path)]))))"

text \<open>
  Lines 97 to 99: the raster of each index is read from the configured path or, failing
  that, from the \<^verbatim>\<open>indices\<close> directory under the output directory.
\<close>

definition ndvi_file :: "config \<Rightarrow> string" where
  "ndvi_file cfg =
     get_or (ndvi_path (cfg_paths cfg))
       (os_path_join (output_dir (cfg_paths cfg)) [''indices'', ''NDVI.tif''])"

definition gndvi_file :: "config \<Rightarrow> string" where
  "gndvi_file cfg =
     get_or (gndvi_path (cfg_paths cfg))
       (os_path_join (output_dir (cfg_paths cfg)) [''indices'', ''GNDVI.tif''])"

definition evi2_file :: "config \<Rightarrow> string" where
  "evi2_file cfg =
     get_or (evi2_path (cfg_paths cfg))
       (os_path_join (output_dir (cfg_paths cfg)) [''indices'', ''EVI2.tif''])"

text \<open>Lines 102 and 103: the output directory and the vector format, in upper case.\<close>

definition polygons_dir :: "config \<Rightarrow> string" where
  "polygons_dir cfg = os_path_join (output_dir (cfg_paths cfg)) [''polygons'']"

definition vector_fmt :: "config \<Rightarrow> string" where
  "vector_fmt cfg = upper (case vector_format (cfg_output cfg) of None \<Rightarrow> ''GPKG'' | Some v \<Rightarrow> v)"

text \<open>
  \<^verbatim>\<open>run\<close>, with the configuration already parsed and the rasters on disk given by \<open>fs\<close>.
  The result is the list of files written and either the error raised or the dictionary
  of output paths. The transform and CRS of the second and third raster are dropped on
  reading (\<^verbatim>\<open>gndvi, _ = read_raster(...)\<close>).
\<close>

definition run ::
  "(geometry \<Rightarrow> real) \<Rightarrow> (string \<Rightarrow> (fval array \<times> meta) option) \<Rightarrow> config \<Rightarrow>
   files \<times> (error + (string \<times> string) list)" where
  "run utm_area fs cfg =
     (let ndvi_p = ndvi_file cfg;
          gndvi_p = gndvi_file cfg;
          evi2_p = evi2_file cfg;
          proc = cfg_processing cfg;
          outdir = polygons_dir cfg;
          fmt = vector_fmt cfg
      in case read_raster fs ndvi_p of
           Inl err \<Rightarrow> ([], Inl err)
         | Inr (ndvi, mt) \<Rightarrow>
      (case read_raster fs gndvi_p of
           Inl err \<Rightarrow> ([], Inl err)
         | Inr (gndvi, _) \<Rightarrow>
      (case read_raster fs evi2_p of
           Inl err \<Rightarrow> ([], Inl err)
         | Inr (evi2, _) \<Rightarrow>
      (case ndvi_range proc of
           None \<Rightarrow> ([], Inl (KeyError ''ndvi_range''))
         | Some r1 \<Rightarrow>
      (case process_index_to_vectors utm_area ''NDVI'' ndvi mt r1 proc outdir fmt [] of
           (w1, Inl err) \<Rightarrow> (w1, Inl err)
         | (w1, Inr ndvi_res) \<Rightarrow>
      (case gndvi_range proc of
           None \<Rightarrow> (w1, Inl (KeyError ''gndvi_range''))
         | Some r2 \<Rightarrow>
      (case process_index_to_vectors utm_area ''GNDVI'' gndvi mt r2 proc outdir fmt w1 of
           (w2, Inl err) \<Rightarrow> (w2, Inl err)
         | (w2, Inr gndvi_res) \<Rightarrow>
      (case evi2_range proc of
           None \<Rightarrow> (w2, Inl (KeyError ''evi2_range''))
         | Some r3 \<Rightarrow>
      (case process_index_to_vectors utm_area ''EVI2'' evi2 mt r3 proc outdir fmt w2 of
           (w3, Inl err) \<Rightarrow> (w3, Inl err)
         | (w3, Inr evi2_res) \<Rightarrow>
             run_combined utm_area ndvi r1 gndvi r2 evi2 r3 mt proc outdir fmt
               (store ''EVI2'' evi2_res (store ''GNDVI'' gndvi_res (store ''NDVI'' ndvi_res [])))
               w3)))))))))"

section \<open>Notions used to state the properties\<close>

text \<open>
  Two cells share an edge when they differ by one step along exactly one axis. The set
  cells of a mask that share an edge are linked; a region of the mask under edge
  connectivity (4-connectivity) is a class of the reflexive transitive closure of this
  relation, and \<open>region m p\<close> is the class of the cell \<open>p\<close>.
\<close>

definition share_edge :: "pos \<Rightarrow> pos \<Rightarrow> bool" where
  "share_edge p q =
     (\<bar>int (fst p) - int (fst q)\<bar> + \<bar>int (snd p) - int (snd q)\<bar> = 1)"

definition edge_linked :: "mask \<Rightarrow> (pos \<times> pos) set" where
  "edge_linked m = {(p, q). p \<in> set (ones m) \<and> q \<in> set (ones m) \<and> share_edge p q}"

definition region :: "mask \<Rightarrow> pos \<Rightarrow> pos set" where
  "region m p = (edge_linked m)\<^sup>* `` {p}"

text \<open>
  The first cell, in scan order, of the region that the labelling floods from a cell, and
  the list of these first cells, one per region.
\<close>

definition first_cell :: "mask \<Rightarrow> pos \<Rightarrow> pos" where
  "first_cell m p = hd (component generate_binary_structure (ones m) p)"

definition first_cells :: "mask \<Rightarrow> pos list" where
  "first_cells m = filter (\<lambda>p. first_cell m p = p) (ones m)"

text \<open>The label that a labelled array gives to a cell.\<close>

definition label_at :: "nat array \<Rightarrow> pos \<Rightarrow> nat" where
  "label_at labeled p = labeled ! fst p ! snd p"

text \<open>
  A feature set carries an \<^verbatim>\<open>area_ha\<close> column with one entry per feature, each between
  the configured bounds.
\<close>

definition within_area_range :: "processing \<Rightarrow> gdf \<Rightarrow> bool" where
  "within_area_range proc g =
     (case area_ha_col g of
        None \<Rightarrow> False
      | Some areas \<Rightarrow>
          length areas = length (geometry_col g) \<and>
          list_all (\<lambda>x. min_area_ha proc \<le> x \<and> x \<le> max_area_ha proc) areas)"

text \<open>Two arrays can be broadcast together when both of their axes can.\<close>

definition broadcastable :: "'a array \<Rightarrow> 'b array \<Rightarrow> bool" where
  "broadcastable a b = (bdim (nrows a) (nrows b) \<noteq> None \<and> bdim (ncols a) (ncols b) \<noteq> None)"

text \<open>The three rasters that a run finds at the paths of its configuration.\<close>

definition layers_read ::
  "(string \<Rightarrow> (fval array \<times> meta) option) \<Rightarrow> config \<Rightarrow>
   fval array \<times> meta \<Rightarrow> fval array \<times> meta \<Rightarrow> fval array \<times> meta \<Rightarrow> bool" where
  "layers_read fs cfg l1 l2 l3 =
     (fs (ndvi_file cfg) = Some l1 \<and> fs (gndvi_file cfg) = Some l2 \<and>
      fs (evi2_file cfg) = Some l3)"

definition files_within_area_range :: "processing \<Rightarrow> files \<Rightarrow> bool" where
  "files_within_area_range proc written =
     list_all (\<lambda>file. within_area_range proc (snd (snd file))) written"

text \<open>
  Sample inputs: a north-up raster with 10 m pixels in a projected CRS, and the parameters
  of the scenario with a minimum of 0.05 ha and a maximum of 1 ha.
\<close>

definition sample_transform :: affine where
  "sample_transform =
     \<lparr>coef_a = 10, coef_b = 0, coef_c = 0, coef_d = 0, coef_e = - 10, coef_f = 0\<rparr>"

definition sample_meta :: meta where
  "sample_meta = \<lparr>transform = sample_transform, meta_crs = Some (CRS ''EPSG:32647'' False)\<rparr>"

definition sample_proc :: processing where
  "sample_proc =
     \<lparr>ndvi_range = Some (Finite (6 / 10), Finite 1),
      gndvi_range = Some (Finite (6 / 10), Finite 1),
      evi2_range = Some (Finite (6 / 10), Finite 1),
      morph_open_radius = 0, morph_close_radius = 0,
      min_area_ha = 5 / 100, max_area_ha = 1\<rparr>"

definition sample_layer :: "fval array" where
  "sample_layer = [[Finite (8 / 10), Finite (8 / 10)], [Finite (5 / 10), Finite (5 / 10)]]"

definition sample_config :: config where
  "sample_config =
     \<lparr>cfg_paths = \<lparr>ndvi_path = None, gndvi_path = None, evi2_path = None, output_dir = ''out''\<rparr>,
      cfg_processing = sample_proc,
      cfg_output = \<lparr>vector_format = Some ''gpkg''\<rparr>\<rparr>"

section \<open>Properties of the morphological cleaner\<close>

lemma shape_tabulate: "shape (map (\<lambda>i. map (f i) [0..<length (m ! i)]) [0..<length m]) = shape m"
  unfolding shape_def by (rule nth_equalityI) simp_all

lemma shape_binary_erosion: "shape (binary_erosion m s) = shape m"
  unfolding binary_erosion_def by (rule shape_tabulate)

lemma shape_binary_dilation: "shape (binary_dilation m s) = shape m"
  unfolding binary_dilation_def by (rule shape_tabulate)

lemma inb_shape: "shape a = shape b \<Longrightarrow> inb a i j = inb b i j"
  unfolding inb_def shape_def
  by (metis length_map nth_map nat_less_iff)

lemma mask_eqI:
  assumes "shape a = shape b" and "\<And>i j. cell a i j = cell b i j"
  shows "a = b"
proof (rule nth_equalityI)
  show len: "length a = length b" using assms(1) unfolding shape_def by (metis length_map)
  fix i assume i: "i < length a"
  have rl: "length (a ! i) = length (b ! i)"
    using assms(1) i len unfolding shape_def by (metis nth_map)
  show "a ! i = b ! i"
  proof (rule nth_equalityI)
    show "length (a ! i) = length (b ! i)" by (rule rl)
    fix j assume j: "j < length (a ! i)"
    have "cell a (int i) (int j) = cell b (int i) (int j)" by (rule assms(2))
    with i j len rl show "a ! i ! j = b ! i ! j"
      by (simp add: cell_def inb_def)
  qed
qed

lemma cell_binary_erosion:
  "cell (binary_erosion m s) i j =
     (inb m i j \<and> (\<forall>(di, dj) \<in> set (offsets s). cell m (i + di) (j + dj)))"
proof (cases "inb m i j")
  case False
  then have "\<not> inb (binary_erosion m s) i j"
    using inb_shape [OF shape_binary_erosion] by blast
  with False show ?thesis by (simp add: cell_def)
next
  case True
  then have a: "nat i < length m" "nat j < length (m ! nat i)" "0 \<le> i" "0 \<le> j"
    by (auto simp: inb_def)
  have "inb (binary_erosion m s) i j"
    using True inb_shape [OF shape_binary_erosion] by blast
  then show ?thesis using True a
    by (simp add: cell_def binary_erosion_def)
qed

lemma cell_binary_dilation:
  "cell (binary_dilation m s) i j =
     (inb m i j \<and> (\<exists>(di, dj) \<in> set (offsets s). cell m (i - di) (j - dj)))"
proof (cases "inb m i j")
  case False
  then have "\<not> inb (binary_dilation m s) i j"
    using inb_shape [OF shape_binary_dilation] by blast
  with False show ?thesis by (simp add: cell_def)
next
  case True
  then have a: "nat i < length m" "nat j < length (m ! nat i)" "0 \<le> i" "0 \<le> j"
    by (auto simp: inb_def)
  have "inb (binary_dilation m s) i j"
    using True inb_shape [OF shape_binary_dilation] by blast
  then show ?thesis using True a
    by (simp add: cell_def binary_dilation_def)
qed

lemma cell_inb: "cell m i j \<Longrightarrow> inb m i j"
  by (simp add: cell_def)

lemma shape_binary_opening: "shape (binary_opening m s) = shape m"
  by (simp add: binary_opening_def shape_binary_dilation shape_binary_erosion)

lemma cell_binary_opening:
  "cell (binary_opening m s) i j =
     (inb m i j \<and> (\<exists>(di, dj) \<in> set (offsets s). inb m (i - di) (j - dj) \<and>
         (\<forall>(ei, ej) \<in> set (offsets s). cell m (i - di + ei) (j - dj + ej))))"
  unfolding binary_opening_def cell_binary_dilation cell_binary_erosion
  using inb_shape [OF shape_binary_erosion] by auto

lemma binary_opening_idem: "binary_opening (binary_opening m s) s = binary_opening m s"
proof (rule mask_eqI)
  show "shape (binary_opening (binary_opening m s) s) = shape (binary_opening m s)"
    by (simp add: shape_binary_opening)
  fix i j
  let ?o = "binary_opening m s"
  have inbo: "\<And>i j. inb ?o i j = inb m i j"
    by (rule inb_shape [OF shape_binary_opening])
  show "cell (binary_opening ?o s) i j = cell ?o i j"
  proof
    assume "cell (binary_opening ?o s) i j"
    then obtain di dj where d: "(di, dj) \<in> set (offsets s)"
      and all: "\<forall>(ei, ej) \<in> set (offsets s). cell ?o (i - di + ei) (j - dj + ej)"
      unfolding cell_binary_opening [of ?o] by auto
    from all d have "cell ?o (i - di + di) (j - dj + dj)" by fast
    then show "cell ?o i j" by simp
  next
    assume "cell ?o i j"
    then obtain di dj where d: "(di, dj) \<in> set (offsets s)" and ib: "inb m i j"
      and ibd: "inb m (i - di) (j - dj)"
      and all: "\<forall>(ei, ej) \<in> set (offsets s). cell m (i - di + ei) (j - dj + ej)"
      unfolding cell_binary_opening [of m] by auto
    have "cell ?o (i - di + ei) (j - dj + ej)" if e: "(ei, ej) \<in> set (offsets s)" for ei ej
    proof -
      from all e have c: "cell m (i - di + ei) (j - dj + ej)" by fast
      have "inb m (i - di + ei - ei) (j - dj + ej - ej)" using ibd by simp
      moreover have "\<forall>(fi, fj) \<in> set (offsets s). cell m (i - di + ei - ei + fi) (j - dj + ej - ej + fj)"
        using all by simp
      ultimately show ?thesis
        unfolding cell_binary_opening [of m] using e cell_inb [OF c] by blast
    qed
    then show "cell (binary_opening ?o s) i j"
      unfolding cell_binary_opening [of ?o] inbo using d ib ibd by blast
  qed
qed

lemma shape_binary_closing: "shape (binary_closing m s) = shape m"
  by (simp add: binary_closing_def shape_binary_dilation shape_binary_erosion)

lemma cell_binary_closing:
  "cell (binary_closing m s) i j =
     (inb m i j \<and> (\<forall>(ei, ej) \<in> set (offsets s). inb m (i + ei) (j + ej) \<and>
         (\<exists>(di, dj) \<in> set (offsets s). cell m (i + ei - di) (j + ej - dj))))"
  unfolding binary_closing_def cell_binary_erosion cell_binary_dilation
  using inb_shape [OF shape_binary_dilation] by auto

lemma binary_closing_idem: "binary_closing (binary_closing m s) s = binary_closing m s"
proof (rule mask_eqI)
  show "shape (binary_closing (binary_closing m s) s) = shape (binary_closing m s)"
    by (simp add: shape_binary_closing)
  fix i j
  let ?c = "binary_closing m s"
  have inbc: "\<And>i j. inb ?c i j = inb m i j"
    by (rule inb_shape [OF shape_binary_closing])
  show "cell (binary_closing ?c s) i j = cell ?c i j"
  proof
    assume a: "cell (binary_closing ?c s) i j"
    then have ib: "inb m i j" unfolding cell_binary_closing [of ?c] inbc by simp
    have "inb m (i + ei) (j + ej) \<and>
          (\<exists>(di, dj) \<in> set (offsets s). cell m (i + ei - di) (j + ej - dj))"
      if e: "(ei, ej) \<in> set (offsets s)" for ei ej
    proof -
      from a e obtain di dj where d: "(di, dj) \<in> set (offsets s)"
        and q: "cell ?c (i + ei - di) (j + ej - dj)"
        unfolding cell_binary_closing [of ?c] by fast
      from q d have "inb m (i + ei - di + di) (j + ej - dj + dj) \<and>
          (\<exists>(fi, fj) \<in> set (offsets s). cell m (i + ei - di + di - fi) (j + ej - dj + dj - fj))"
        unfolding cell_binary_closing [of m] by fast
      then show ?thesis by simp
    qed
    with ib show "cell ?c i j" unfolding cell_binary_closing [of m] by blast
  next
    assume c: "cell ?c i j"
    then have ib: "inb m i j" and
      all: "\<forall>(ei, ej) \<in> set (offsets s). inb m (i + ei) (j + ej)"
      unfolding cell_binary_closing [of m] by auto
    have "inb m (i + ei) (j + ej) \<and>
          (\<exists>(di, dj) \<in> set (offsets s). cell ?c (i + ei - di) (j + ej - dj))"
      if e: "(ei, ej) \<in> set (offsets s)" for ei ej
    proof -
      from all e have "inb m (i + ei) (j + ej)" by fast
      moreover have "cell ?c (i + ei - ei) (j + ej - ej)" using c by simp
      ultimately show ?thesis using e by blast
    qed
    with ib show "cell (binary_closing ?c s) i j"
      unfolding cell_binary_closing [of ?c] inbc by blast
  qed
qed

text \<open>
  C8, as stated: cleaning twice with the same radii gives the same mask as cleaning once.
  This fails on a \<open>3 \<times> 3\<close> mask of ones with both radii 1: closing erodes against the
  zero border and leaves the centre cell, which the opening of the second pass removes.
\<close>

theorem morphology_twice_differs:
  "binary_morphology
     (binary_morphology [[True, True, True], [True, True, True], [True, True, True]] 1 1) 1 1
   \<noteq> binary_morphology [[True, True, True], [True, True, True], [True, True, True]] 1 1"
  by code_simp

text \<open>
  C8, amended: when at most one of the two steps is performed (one of the radii is 0, so
  the cleaner is the opening alone, the closing alone or the identity), cleaning twice
  with the same radii gives the same mask as cleaning once, for every mask and every
  radius of the step performed.
\<close>

theorem morphology_idempotent_single_step:
  "open_radius \<le> 0 \<or> close_radius \<le> 0 \<Longrightarrow>
   binary_morphology (binary_morphology m open_radius close_radius) open_radius close_radius
   = binary_morphology m open_radius close_radius"
  by (auto simp: binary_morphology_def binary_opening_idem binary_closing_idem)

theorem morphology_idempotent_single_step_witness:
  "((0::int) \<le> 0 \<or> (1::int) \<le> 0) \<and>
   binary_morphology [[True, True, True], [True, True, True], [True, True, True]] 0 1
   = [[False, False, False], [False, True, False], [False, False, False]] \<and>
   binary_morphology [[False, False, False], [False, True, False], [False, False, False]] 0 1
   = [[False, False, False], [False, True, False], [False, False, False]]"
proof -
  have c: "binary_morphology [[True, True, True], [True, True, True], [True, True, True]] 0 1
           = [[False, False, False], [False, True, False], [False, False, False]]"
    by code_simp
  have h: "(0::int) \<le> 0 \<or> (1::int) \<le> 0" by simp
  from morphology_idempotent_single_step
    [OF h, of "[[True, True, True], [True, True, True], [True, True, True]]"]
  have "binary_morphology [[False, False, False], [False, True, False], [False, False, False]] 0 1
        = [[False, False, False], [False, True, False], [False, False, False]]"
    unfolding c .
  with c h show ?thesis by blast
qed

section \<open>Properties of the mask builder and of the combined mask\<close>

lemma map2_map_map: "map2 f (map g xs) (map h xs) = map (\<lambda>x. f (g x) (h x)) xs"
  by (induction xs) simp_all

lemma shape_np_ge: "shape (np_ge arr t) = shape arr"
  by (simp add: shape_def np_ge_def)

lemma shape_np_le: "shape (np_le arr t) = shape arr"
  by (simp add: shape_def np_le_def)

lemma np_and_same_shape: "shape a = shape b \<Longrightarrow> np_and a b = Inr (logical_and a b)"
  by (simp add: np_and_def)

lemma shape_length: "shape a = shape b \<Longrightarrow> length a = length b"
  unfolding shape_def by (metis length_map)

lemma shape_row_length: "shape a = shape b \<Longrightarrow> i < length a \<Longrightarrow> length (a ! i) = length (b ! i)"
  unfolding shape_def by (metis length_map nth_map)

lemma shape_logical_and:
  assumes "shape a = shape b"
  shows "shape (logical_and a b) = shape a"
  unfolding shape_def logical_and_def
  by (rule nth_equalityI)
     (simp_all add: shape_length [OF assms] shape_row_length [OF assms])

lemma nth_logical_and:
  assumes "shape a = shape b" "i < length a" "j < length (a ! i)"
  shows "logical_and a b ! i ! j = (a ! i ! j \<and> b ! i ! j)"
  using assms shape_length [OF assms(1)] shape_row_length [OF assms(1) assms(2)]
  by (simp add: logical_and_def)

lemma nth_logical_and_ref:
  assumes a: "shape a = shape r" and b: "shape b = shape r"
    and i: "i < length r" and j: "j < length (r ! i)"
  shows "logical_and a b ! i ! j = (a ! i ! j \<and> b ! i ! j)"
proof -
  have ab: "shape a = shape b" using a b by simp
  have ia: "i < length a" using i shape_length [OF a] by simp
  have ja: "j < length (a ! i)" using j shape_row_length [OF a ia] by simp
  show ?thesis by (rule nth_logical_and [OF ab ia ja])
qed

lemma array_eqI:
  assumes "shape a = shape b"
    and "\<And>i j. i < length a \<Longrightarrow> j < length (a ! i) \<Longrightarrow> a ! i ! j = b ! i ! j"
  shows "a = b"
proof (rule nth_equalityI)
  show "length a = length b" by (rule shape_length [OF assms(1)])
  fix i assume i: "i < length a"
  show "a ! i = b ! i"
    by (rule nth_equalityI) (simp_all add: shape_row_length [OF assms(1) i] assms(2) i)
qed

lemma threshold_mask_eq:
  "threshold_mask arr (lo, hi) = Inr (map (map (\<lambda>v. fle lo v \<and> fle v hi)) arr)"
proof -
  have "logical_and (np_ge arr lo) (np_le arr hi) = map (map (\<lambda>v. fle lo v \<and> fle v hi)) arr"
    unfolding np_ge_def np_le_def logical_and_def by (simp add: map2_map_map)
  then show ?thesis
    by (simp add: threshold_mask_def np_and_same_shape shape_np_ge shape_np_le)
qed

lemma shape_threshold: "shape (map (map f) arr) = shape arr"
  by (simp add: shape_def)

lemma combined_mask_eq:
  assumes s12: "shape ndvi = shape gndvi" and s23: "shape gndvi = shape evi2"
  shows "combined_mask ndvi (lo1, hi1) gndvi (lo2, hi2) evi2 (lo3, hi3) =
         Inr (logical_and
                (logical_and (map (map (\<lambda>v. fle lo1 v \<and> fle v hi1)) ndvi)
                             (map (map (\<lambda>v. fle lo2 v \<and> fle v hi2)) gndvi))
                (map (map (\<lambda>v. fle lo3 v \<and> fle v hi3)) evi2))"
proof -
  let ?a1 = "np_ge ndvi lo1" and ?a2 = "np_le ndvi hi1"
  let ?b1 = "np_ge gndvi lo2" and ?b2 = "np_le gndvi hi2"
  let ?c1 = "np_ge evi2 lo3" and ?c2 = "np_le evi2 hi3"
  let ?c1' = "logical_and ?a1 ?a2"
  let ?c2' = "logical_and ?c1' ?b1"
  let ?c3' = "logical_and ?c2' ?b2"
  let ?c4' = "logical_and ?c3' ?c1"
  let ?c5' = "logical_and ?c4' ?c2"
  have sh: "shape ?a1 = shape ndvi" "shape ?a2 = shape ndvi" "shape ?b1 = shape ndvi"
    "shape ?b2 = shape ndvi" "shape ?c1 = shape ndvi" "shape ?c2 = shape ndvi"
    using s12 s23 by (simp_all add: shape_np_ge shape_np_le)
  have s1: "shape ?c1' = shape ndvi" using sh by (simp add: shape_logical_and)
  have s2: "shape ?c2' = shape ndvi" using sh s1 by (simp add: shape_logical_and)
  have s3: "shape ?c3' = shape ndvi" using sh s2 by (simp add: shape_logical_and)
  have s4: "shape ?c4' = shape ndvi" using sh s3 by (simp add: shape_logical_and)
  have s5: "shape ?c5' = shape ndvi" using sh s4 by (simp add: shape_logical_and)
  have chain: "combined_mask ndvi (lo1, hi1) gndvi (lo2, hi2) evi2 (lo3, hi3) = Inr ?c5'"
    unfolding combined_mask_def
    by (simp add: np_and_same_shape sh s1 s2 s3 s4)
  let ?A = "map (map (\<lambda>v. fle lo1 v \<and> fle v hi1)) ndvi"
  let ?B = "map (map (\<lambda>v. fle lo2 v \<and> fle v hi2)) gndvi"
  let ?C = "map (map (\<lambda>v. fle lo3 v \<and> fle v hi3)) evi2"
  have sA: "shape ?A = shape ndvi" and sB: "shape ?B = shape ndvi" and sC: "shape ?C = shape ndvi"
    using s12 s23 by (simp_all add: shape_threshold)
  have sAB: "shape (logical_and ?A ?B) = shape ndvi" using sA sB by (simp add: shape_logical_and)
  have sABC: "shape (logical_and (logical_and ?A ?B) ?C) = shape ndvi"
    using sAB sC by (simp add: shape_logical_and)
  have "?c5' = logical_and (logical_and ?A ?B) ?C"
  proof (rule array_eqI)
    show "shape ?c5' = shape (logical_and (logical_and ?A ?B) ?C)" using s5 sABC by simp
    fix i j assume i: "i < length ?c5'" and j: "j < length (?c5' ! i)"
    have i0: "i < length ndvi" using i shape_length [OF s5] by simp
    have j0: "j < length (ndvi ! i)" using j shape_row_length [OF s5 i] by simp
    have ig: "i < length gndvi" and ie: "i < length evi2"
      using i0 shape_length [OF s12] shape_length [OF s23] by simp_all
    have jg: "j < length (gndvi ! i)" using j0 shape_row_length [OF s12 i0] by simp
    have je: "j < length (evi2 ! i)" using jg shape_row_length [OF s23 ig] by simp
    note n = nth_logical_and_ref [OF _ _ i0 j0]
    have L1: "?c1' ! i ! j = (?a1 ! i ! j \<and> ?a2 ! i ! j)" by (rule n [OF sh(1) sh(2)])
    have L2: "?c2' ! i ! j = (?c1' ! i ! j \<and> ?b1 ! i ! j)" by (rule n [OF s1 sh(3)])
    have L3: "?c3' ! i ! j = (?c2' ! i ! j \<and> ?b2 ! i ! j)" by (rule n [OF s2 sh(4)])
    have L4: "?c4' ! i ! j = (?c3' ! i ! j \<and> ?c1 ! i ! j)" by (rule n [OF s3 sh(5)])
    have L5: "?c5' ! i ! j = (?c4' ! i ! j \<and> ?c2 ! i ! j)" by (rule n [OF s4 sh(6)])
    have R1: "logical_and ?A ?B ! i ! j = (?A ! i ! j \<and> ?B ! i ! j)" by (rule n [OF sA sB])
    have R2: "logical_and (logical_and ?A ?B) ?C ! i ! j = (logical_and ?A ?B ! i ! j \<and> ?C ! i ! j)"
      by (rule n [OF sAB sC])
    have v: "?a1 ! i ! j = fle lo1 (ndvi ! i ! j)" "?a2 ! i ! j = fle (ndvi ! i ! j) hi1"
      "?b1 ! i ! j = fle lo2 (gndvi ! i ! j)" "?b2 ! i ! j = fle (gndvi ! i ! j) hi2"
      "?c1 ! i ! j = fle lo3 (evi2 ! i ! j)" "?c2 ! i ! j = fle (evi2 ! i ! j) hi3"
      "?A ! i ! j = (fle lo1 (ndvi ! i ! j) \<and> fle (ndvi ! i ! j) hi1)"
      "?B ! i ! j = (fle lo2 (gndvi ! i ! j) \<and> fle (gndvi ! i ! j) hi2)"
      "?C ! i ! j = (fle lo3 (evi2 ! i ! j) \<and> fle (evi2 ! i ! j) hi3)"
      using i0 j0 ig ie jg je by (simp_all add: np_ge_def np_le_def)
    show "?c5' ! i ! j = logical_and (logical_and ?A ?B) ?C ! i ! j"
      unfolding L5 L4 L3 L2 L1 R2 R1 v by blast
  qed
  with chain show ?thesis by simp
qed

lemma fle_NaN_right: "fle x NaN = False"
  by (cases x) simp_all

lemma fle_PosInf_left: "fle PosInf y = (y = PosInf)"
  by (cases y) simp_all

lemma fle_NegInf_right: "fle x NegInf = (x = NegInf)"
  by (cases x) simp_all

lemma fle_PosInf_right: "fle x PosInf = (x \<noteq> NaN)"
  by (cases x) simp_all

lemma fle_NegInf_left: "fle NegInf y = (y \<noteq> NaN)"
  by (cases y) simp_all

text \<open>
  C4, as stated: every non-finite sample yields 0 for every threshold range. This fails
  for an infinite sample when the matching bound is the same infinity: \<^verbatim>\<open>inf <= inf\<close>
  holds, so with the range \<open>[0, +inf]\<close> a \<open>+inf\<close> sample is set in the mask.
\<close>

theorem mask_builder_posinf_kept:
  "threshold_mask [[PosInf]] (Finite 0, PosInf) = Inr [[True]]"
  by (simp add: threshold_mask_eq)

text \<open>
  C4, amended: the Mask Builder never fails and returns a mask of the layer's shape whose
  cell is set exactly when \<open>lo \<le> value\<close> and \<open>value \<le> hi\<close> hold as IEEE comparisons
  (inclusive at both ends). A NaN sample always yields 0. A \<open>+inf\<close> sample is set exactly
  when \<open>hi\<close> is \<open>+inf\<close> and \<open>lo\<close> is not NaN, a \<open>-inf\<close> sample exactly when \<open>lo\<close> is
  \<open>-inf\<close> and \<open>hi\<close> is not NaN; so with finite bounds every non-finite sample yields 0.
\<close>

theorem mask_builder_nonfinite:
  "\<exists>m. threshold_mask arr (lo, hi) = Inr m \<and> shape m = shape arr \<and>
     (\<forall>i < length arr. \<forall>j < length (arr ! i).
        (m ! i ! j \<longleftrightarrow> fle lo (arr ! i ! j) \<and> fle (arr ! i ! j) hi) \<and>
        (arr ! i ! j = NaN \<longrightarrow> \<not> m ! i ! j) \<and>
        (arr ! i ! j = PosInf \<longrightarrow> (m ! i ! j \<longleftrightarrow> hi = PosInf \<and> lo \<noteq> NaN)) \<and>
        (arr ! i ! j = NegInf \<longrightarrow> (m ! i ! j \<longleftrightarrow> lo = NegInf \<and> hi \<noteq> NaN)) \<and>
        (is_finite lo \<and> is_finite hi \<and> \<not> is_finite (arr ! i ! j) \<longrightarrow> \<not> m ! i ! j))"
proof -
  let ?m = "map (map (\<lambda>v. fle lo v \<and> fle v hi)) arr"
  have "shape ?m = shape arr" by (simp add: shape_def)
  moreover have "?m ! i ! j \<longleftrightarrow> fle lo (arr ! i ! j) \<and> fle (arr ! i ! j) hi"
    if "i < length arr" "j < length (arr ! i)" for i j
    using that by simp
  moreover have "fle lo v \<and> fle v hi \<Longrightarrow> v \<noteq> NaN" for v
    by (cases v) (auto simp: fle_NaN_right)
  moreover have "(fle lo PosInf \<and> fle PosInf hi) = (hi = PosInf \<and> lo \<noteq> NaN)"
    by (auto simp: fle_PosInf_left fle_PosInf_right)
  moreover have "(fle lo NegInf \<and> fle NegInf hi) = (lo = NegInf \<and> hi \<noteq> NaN)"
    by (auto simp: fle_NegInf_left fle_NegInf_right)
  moreover have "is_finite lo \<Longrightarrow> is_finite hi \<Longrightarrow> \<not> is_finite v \<Longrightarrow> \<not> (fle lo v \<and> fle v hi)" for v
    by (cases lo; cases hi; cases v) (simp_all add: is_finite_def)
  ultimately show ?thesis
    unfolding threshold_mask_eq by (intro exI [of _ ?m]) (simp; metis)
qed

theorem mask_builder_nonfinite_witness:
  "\<exists>m. threshold_mask [[NaN, Finite 1, PosInf, Finite 2, Finite 3]] (Finite 1, Finite 2) = Inr m \<and>
       \<not> m ! 0 ! 0 \<and> m ! 0 ! 1 \<and> \<not> m ! 0 ! 2 \<and> m ! 0 ! 3 \<and> \<not> m ! 0 ! 4"
proof -
  obtain m where m: "threshold_mask [[NaN, Finite 1, PosInf, Finite 2, Finite 3]] (Finite 1, Finite 2) = Inr m"
    and c: "\<forall>i < length [[NaN, Finite 1, PosInf, Finite 2, Finite 3]].
            \<forall>j < length ([[NaN, Finite 1, PosInf, Finite 2, Finite 3]] ! i).
              (m ! i ! j \<longleftrightarrow> fle (Finite 1) ([[NaN, Finite 1, PosInf, Finite 2, Finite 3]] ! i ! j)
                 \<and> fle ([[NaN, Finite 1, PosInf, Finite 2, Finite 3]] ! i ! j) (Finite 2))"
    using mask_builder_nonfinite [of "[[NaN, Finite 1, PosInf, Finite 2, Finite 3]]" "Finite 1" "Finite 2"]
    by blast
  from c have k: "\<And>j. j < 5 \<Longrightarrow> (m ! 0 ! j \<longleftrightarrow> fle (Finite 1) ([NaN, Finite 1, PosInf, Finite 2, Finite 3] ! j)
                 \<and> fle ([NaN, Finite 1, PosInf, Finite 2, Finite 3] ! j) (Finite 2))"
    by simp
  from k [of 0] k [of 1] k [of 2] k [of 3] k [of 4]
  have "\<not> m ! 0 ! 0 \<and> m ! 0 ! 1 \<and> \<not> m ! 0 ! 2 \<and> m ! 0 ! 3 \<and> \<not> m ! 0 ! 4"
    by simp
  with m show ?thesis by blast
qed

text \<open>
  C5: for layers of one shape, the mask that \<^verbatim>\<open>run\<close> builds before morphology is the
  elementwise conjunction of the three masks the Mask Builder gives for the layers: a
  cell is set only if every layer's range holds there.
\<close>

theorem combined_mask_is_and:
  assumes "shape ndvi = shape gndvi" and "shape gndvi = shape evi2"
  shows "\<exists>A B C. threshold_mask ndvi r1 = Inr A \<and> threshold_mask gndvi r2 = Inr B \<and>
           threshold_mask evi2 r3 = Inr C \<and>
           combined_mask ndvi r1 gndvi r2 evi2 r3 = Inr (logical_and (logical_and A B) C) \<and>
           (\<forall>i < length ndvi. \<forall>j < length (ndvi ! i).
              logical_and (logical_and A B) C ! i ! j \<longleftrightarrow> A ! i ! j \<and> B ! i ! j \<and> C ! i ! j)"
proof -
  obtain lo1 hi1 lo2 hi2 lo3 hi3 where r: "r1 = (lo1, hi1)" "r2 = (lo2, hi2)" "r3 = (lo3, hi3)"
    by (cases r1, cases r2, cases r3) blast
  let ?A = "map (map (\<lambda>v. fle lo1 v \<and> fle v hi1)) ndvi"
  let ?B = "map (map (\<lambda>v. fle lo2 v \<and> fle v hi2)) gndvi"
  let ?C = "map (map (\<lambda>v. fle lo3 v \<and> fle v hi3)) evi2"
  have sA: "shape ?A = shape ndvi" and sB: "shape ?B = shape ndvi" and sC: "shape ?C = shape ndvi"
    using assms by (simp_all add: shape_threshold)
  have sAB: "shape (logical_and ?A ?B) = shape ndvi" using sA sB by (simp add: shape_logical_and)
  have cells: "logical_and (logical_and ?A ?B) ?C ! i ! j \<longleftrightarrow> ?A ! i ! j \<and> ?B ! i ! j \<and> ?C ! i ! j"
    if i: "i < length ndvi" and j: "j < length (ndvi ! i)" for i j
    using nth_logical_and_ref [OF sAB sC i j] nth_logical_and_ref [OF sA sB i j] by blast
  show ?thesis
    unfolding r threshold_mask_eq combined_mask_eq [OF assms]
    using cells by blast
qed

theorem combined_mask_is_and_witness:
  "shape [[Finite 1, Finite 5]] = shape [[Finite 2, Finite 2]] \<and>
   shape [[Finite 2, Finite 2]] = shape [[Finite 3, Finite 9]] \<and>
   combined_mask [[Finite 1, Finite 5]] (Finite 0, Finite 4) [[Finite 2, Finite 2]] (Finite 1, Finite 3)
     [[Finite 3, Finite 9]] (Finite 2, Finite 9) = Inr [[True, False]]"
proof -
  have s: "shape [[Finite 1, Finite 5]] = shape [[Finite 2, Finite 2]]"
    "shape [[Finite 2, Finite 2]] = shape [[Finite 3, Finite 9]]"
    by (simp_all add: shape_def)
  show ?thesis
    using s combined_mask_is_and [OF s, of "(Finite 0, Finite 4)" "(Finite 1, Finite 3)" "(Finite 2, Finite 9)"]
    by (auto simp: threshold_mask_eq logical_and_def)
qed

section \<open>Masks without set cells\<close>

lemma in_ones_iff: "(i, j) \<in> set (ones m) \<longleftrightarrow> i < length m \<and> j < length (m ! i) \<and> m ! i ! j"
  by (auto simp: ones_def)

lemma in_ones_cell: "p \<in> set (ones m) \<longleftrightarrow> cell m (int (fst p)) (int (snd p))"
  by (cases p) (simp add: in_ones_iff cell_def inb_def)

lemma ones_empty_iff: "ones m = [] \<longleftrightarrow> (\<forall>i j. \<not> cell m i j)"
proof
  assume e: "ones m = []"
  show "\<forall>i j. \<not> cell m i j"
  proof (intro allI notI)
    fix i j assume c: "cell m i j"
    then have "(nat i, nat j) \<in> set (ones m)"
      by (simp add: in_ones_cell cell_def inb_def)
    with e show False by simp
  qed
next
  assume a: "\<forall>i j. \<not> cell m i j"
  show "ones m = []"
  proof (cases "ones m")
    case Nil
    then show ?thesis .
  next
    case (Cons p ps)
    then have "p \<in> set (ones m)" by simp
    then show ?thesis using a by (simp add: in_ones_cell)
  qed
qed

lemma cell_zeros_like: "\<not> cell (zeros_like m) i j"
proof
  assume c: "cell (zeros_like m) i j"
  then have i: "nat i < length m" by (auto simp: cell_def inb_def zeros_like_def)
  with c have j: "nat j < length (m ! nat i)" by (auto simp: cell_def inb_def zeros_like_def)
  from c i j show False by (simp add: cell_def zeros_like_def)
qed

lemma ones_zeros_like: "ones (zeros_like m) = []"
  by (simp add: ones_empty_iff cell_zeros_like)

lemma shape_zeros_like: "shape (zeros_like m) = shape m"
  by (simp add: shape_def zeros_like_def)

lemma no_cells_zeros_like:
  assumes "ones m = []"
  shows "m = zeros_like m"
proof (rule mask_eqI)
  show "shape m = shape (zeros_like m)" by (simp add: shape_zeros_like)
  fix i j
  show "cell m i j = cell (zeros_like m) i j"
    using assms by (simp add: ones_empty_iff cell_zeros_like)
qed

lemma binary_opening_subset: "cell (binary_opening m s) i j \<Longrightarrow> cell m i j"
proof -
  assume "cell (binary_opening m s) i j"
  then obtain di dj where d: "(di, dj) \<in> set (offsets s)"
    and all: "\<forall>(ei, ej) \<in> set (offsets s). cell m (i - di + ei) (j - dj + ej)"
    unfolding cell_binary_opening by auto
  from all d have "cell m (i - di + di) (j - dj + dj)" by fast
  then show ?thesis by simp
qed

lemma offsets_memI:
  assumes "i < length s" "j < length (s ! i)" "s ! i ! j"
  shows "(int i - int (nrows s div 2), int j - int (ncols s div 2)) \<in> set (offsets s)"
proof -
  have "\<exists>x\<in>{0..<length s}.
           (int i - int (nrows s div 2), int j - int (ncols s div 2))
           \<in> (\<lambda>xa. (int x - int (nrows s div 2), int xa - int (ncols s div 2))) `
             {xa. xa < length (s ! x) \<and> s ! x ! xa}"
  proof (rule bexI [of _ i])
    show "i \<in> {0..<length s}" using assms by simp
    show "(int i - int (nrows s div 2), int j - int (ncols s div 2))
           \<in> (\<lambda>xa. (int i - int (nrows s div 2), int xa - int (ncols s div 2))) `
             {xa. xa < length (s ! i) \<and> s ! i ! xa}"
      by (rule image_eqI [of _ _ j]) (use assms in simp_all)
  qed
  then show ?thesis by (simp add: offsets_def)
qed

lemma length_disk: "0 \<le> r \<Longrightarrow> length (disk r) = nat (2 * r + 1)"
  by (simp add: disk_def Let_def)

lemma disk_row:
  assumes "0 \<le> r" "i < nat (2 * r + 1)"
  shows "disk r ! i = map (\<lambda>x. (x - r)\<^sup>2 + (int i - r)\<^sup>2 \<le> r\<^sup>2) [0..2 * r]"
  using assms by (simp add: disk_def Let_def)

lemma centre_in_disk:
  assumes r: "0 \<le> r"
  shows "(0, 0) \<in> set (offsets (disk r))"
proof -
  let ?n = "nat r"
  have len: "length (disk r) = nat (2 * r + 1)" by (rule length_disk [OF r])
  have n: "?n < nat (2 * r + 1)" using r by simp
  have row: "disk r ! ?n = map (\<lambda>x. (x - r)\<^sup>2 + (int ?n - r)\<^sup>2 \<le> r\<^sup>2) [0..2 * r]"
    by (rule disk_row [OF r n])
  have rowlen: "length (disk r ! ?n) = nat (2 * r + 1)" unfolding row by simp
  have "[0..2 * r] ! ?n = 0 + int ?n" using r by (simp add: nth_upto)
  then have centre: "disk r ! ?n ! ?n" unfolding row using r n by simp
  have nr: "nrows (disk r) div 2 = ?n" using r by (simp add: nrows_def len; linarith)
  have ne: "disk r \<noteq> []" using len r by auto
  then obtain r0 rest where d: "disk r = r0 # rest" by (cases "disk r") auto
  have "r0 = disk r ! 0" by (simp add: d)
  also have "\<dots> = map (\<lambda>x. (x - r)\<^sup>2 + (int 0 - r)\<^sup>2 \<le> r\<^sup>2) [0..2 * r]"
    by (rule disk_row [OF r]) (use r in simp)
  finally have "length r0 = nat (2 * r + 1)" by simp
  then have nc: "ncols (disk r) div 2 = ?n" using r by (simp add: ncols_def d; linarith)
  have "(int ?n - int (nrows (disk r) div 2), int ?n - int (ncols (disk r) div 2)) \<in> set (offsets (disk r))"
    by (rule offsets_memI) (use n centre rowlen len in simp_all)
  then show ?thesis unfolding nr nc by simp
qed

lemma binary_closing_no_cells:
  assumes e: "\<forall>i j. \<not> cell m i j" and s: "offsets s \<noteq> []"
  shows "\<not> cell (binary_closing m s) i j"
proof -
  have d: "\<not> cell (binary_dilation m s) i j" for i j
    using e by (simp add: cell_binary_dilation)
  obtain di dj where o1: "(di, dj) \<in> set (offsets s)" using s by (cases "offsets s") auto
  show ?thesis
  proof
    assume "cell (binary_closing m s) i j"
    then have "\<forall>(di, dj) \<in> set (offsets s). cell (binary_dilation m s) (i + di) (j + dj)"
      unfolding binary_closing_def cell_binary_erosion by simp
    with o1 have "cell (binary_dilation m s) (i + di) (j + dj)" by fast
    with d show False by simp
  qed
qed

lemma binary_morphology_no_cells:
  assumes e: "ones m = []"
  shows "ones (binary_morphology m open_radius close_radius) = []"
proof -
  let ?o = "if open_radius > 0 then binary_opening m (disk open_radius) else m"
  have o: "\<forall>i j. \<not> cell ?o i j"
    using e by (auto simp: ones_empty_iff dest: binary_opening_subset)
  have "\<forall>i j. \<not> cell (if close_radius > 0 then binary_closing ?o (disk close_radius) else ?o) i j"
  proof (cases "close_radius > 0")
    case True
    then have "offsets (disk close_radius) \<noteq> []"
      using centre_in_disk [of close_radius] by auto
    with o True show ?thesis by (simp add: binary_closing_no_cells)
  next
    case False
    with o show ?thesis by simp
  qed
  then show ?thesis by (simp add: ones_empty_iff binary_morphology_def Let_def)
qed

lemma label_no_cells: "ones m = [] \<Longrightarrow> snd (label m) = 0"
  by (simp add: label_def label_with_def Let_def)

lemma size_filter_no_cells: "ones m = [] \<Longrightarrow> size_filter m mp = zeros_like m"
proof -
  assume e: "ones m = []"
  obtain labeled n where l: "label m = (labeled, n)" by (cases "label m")
  with label_no_cells [OF e] have "n = 0" by simp
  with l show ?thesis by (simp add: size_filter_def)
qed

lemma shapes_no_cells: "ones m = [] \<Longrightarrow> shapes m t = []"
proof -
  assume e: "ones m = []"
  obtain labeled n where l: "label m = (labeled, n)" by (cases "label m")
  with label_no_cells [OF e] have "n = 0" by simp
  with l show ?thesis by (simp add: shapes_def)
qed

lemma raster_to_polygons_no_cells:
  "ones m = [] \<Longrightarrow>
   raster_to_polygons m mt = \<lparr>geometry_col = [], area_ha_col = None, gdf_crs = meta_crs mt\<rparr>"
  by (simp add: raster_to_polygons_def shapes_no_cells)

lemma compute_area_ha_empty:
  "empty g \<Longrightarrow> compute_area_ha utm_area g = Inr (g\<lparr>area_ha_col := Some []\<rparr>)"
  by (simp add: compute_area_ha_def)

lemma process_no_cells:
  assumes t: "threshold_mask arr val_range = Inr m0" and e: "ones m0 = []"
    and pa: "pixel_area_m2 mt \<noteq> 0"
  shows "process_index_to_vectors utm_area name arr mt val_range proc out_dir fmt written
         = (written, Inr None)"
proof -
  let ?m = "binary_morphology m0 (morph_open_radius proc) (morph_close_radius proc)"
  have m: "ones ?m = []" by (rule binary_morphology_no_cells [OF e])
  obtain mp where mp: "min_pixels proc mt = Inr mp" using pa by (simp add: min_pixels_def)
  have c: "ones (size_filter ?m mp) = []"
    by (simp add: size_filter_no_cells [OF m] ones_zeros_like)
  let ?g = "raster_to_polygons (size_filter ?m mp) mt"
  have g: "?g = \<lparr>geometry_col = [], area_ha_col = None, gdf_crs = meta_crs mt\<rparr>"
    by (rule raster_to_polygons_no_cells [OF c])
  have ca: "compute_area_ha utm_area ?g = Inr (?g\<lparr>area_ha_col := Some []\<rparr>)"
    by (rule compute_area_ha_empty) (simp add: g empty_def)
  have af: "area_filter (?g\<lparr>area_ha_col := Some []\<rparr>) proc = Inr (?g\<lparr>area_ha_col := Some []\<rparr>)"
    unfolding g by (simp add: area_filter_def select_def)
  have em: "empty (?g\<lparr>area_ha_col := Some []\<rparr>)" unfolding g by (simp add: empty_def)
  show ?thesis
    unfolding process_index_to_vectors_def
    by (simp add: t mp Let_def ca af em del: One_nat_def)
qed

section \<open>Properties of the area calculator and of the area filter\<close>

lemma select_map_self: "select (map P xs) xs = filter P xs"
  by (induction xs) (simp_all add: select_def)

lemma zip_select:
  "length xs = length ys \<Longrightarrow>
   zip (select (map P ys) xs) (select (map P ys) ys) = filter (\<lambda>(x, y). P y) (zip xs ys)"
  by (induction xs ys rule: list_induct2) (simp_all add: select_def)

lemma length_select:
  "length xs = length ys \<Longrightarrow> length (select (map P ys) xs) = length (filter P ys)"
  by (induction xs ys rule: list_induct2) (simp_all add: select_def)

lemma compute_area_ha_cases:
  "compute_area_ha utm_area g = Inr g' \<Longrightarrow>
   geometry_col g' = geometry_col g \<and> gdf_crs g' = gdf_crs g \<and>
   (\<exists>areas. area_ha_col g' = Some areas \<and> length areas = length (geometry_col g))"
  by (auto simp: compute_area_ha_def empty_def Let_def split: if_splits option.splits)

lemma compute_area_ha_with_crs:
  "gdf_crs g = Some c \<Longrightarrow>
   compute_area_ha utm_area g =
     Inr (g\<lparr>area_ha_col :=
              Some (map (\<lambda>x. (if is_geographic c then utm_area x else area x) / 10000)
                        (geometry_col g))\<rparr>)"
  by (simp add: compute_area_ha_def empty_def Let_def)

lemma area_filter_in_range:
  assumes "area_filter g1 proc = Inr g" and "area_ha_col g1 = Some areas"
    and "length areas = length (geometry_col g1)"
  shows "within_area_range proc g"
  using assms
  by (auto simp: area_filter_def within_area_range_def Let_def select_map_self length_select
        list_all_iff)

lemma area_filter_rows:
  assumes "area_ha_col g = Some areas" and "length areas = length (geometry_col g)"
  shows "\<exists>g' areas'. area_filter g proc = Inr g' \<and> area_ha_col g' = Some areas' \<and>
           gdf_crs g' = gdf_crs g \<and>
           zip (geometry_col g') areas' =
             filter (\<lambda>(geom, x). min_area_ha proc \<le> x \<and> x \<le> max_area_ha proc)
                    (zip (geometry_col g) areas)"
  using assms by (simp add: area_filter_def Let_def zip_select)

lemma area_stage_in_range:
  assumes "compute_area_ha utm_area g0 = Inr g1" and "area_filter g1 proc = Inr g"
  shows "within_area_range proc g"
proof -
  from compute_area_ha_cases [OF assms(1)]
  obtain areas where "area_ha_col g1 = Some areas" "length areas = length (geometry_col g1)"
    by auto
  then show ?thesis by (rule area_filter_in_range [OF assms(2)])
qed

lemma area_stage_total:
  assumes "gdf_crs g0 = Some c"
  shows "\<exists>g1 g. compute_area_ha utm_area g0 = Inr g1 \<and> area_filter g1 proc = Inr g"
  using assms by (simp add: compute_area_ha_with_crs area_filter_def Let_def)

lemma gdf_crs_raster_to_polygons: "gdf_crs (raster_to_polygons m mt) = meta_crs mt"
  by (simp add: raster_to_polygons_def Let_def)

lemma threshold_mask_total: "\<exists>m. threshold_mask arr val_range = Inr m"
  by (cases val_range) (simp add: threshold_mask_eq)

lemma process_outcome:
  "(fst (process_index_to_vectors utm_area name arr mt val_range proc out_dir fmt written) = written \<and>
    (snd (process_index_to_vectors utm_area name arr mt val_range proc out_dir fmt written) = Inr None \<or>
     (\<exists>err. snd (process_index_to_vectors utm_area name arr mt val_range proc out_dir fmt written) = Inl err)))
   \<or> (\<exists>path driver g.
         process_index_to_vectors utm_area name arr mt val_range proc out_dir fmt written
           = (written @ [(path, driver, g)], Inr (Some (path, g))) \<and>
         within_area_range proc g \<and> \<not> empty g)"
  unfolding process_index_to_vectors_def Let_def
  by (auto split: sum.splits dest: area_stage_in_range)

lemma process_no_error:
  assumes pa: "pixel_area_m2 mt \<noteq> 0" and crs: "meta_crs mt = Some c"
  shows "snd (process_index_to_vectors utm_area name arr mt val_range proc out_dir fmt written) \<noteq> Inl err"
proof -
  obtain m0 where t: "threshold_mask arr val_range = Inr m0"
    using threshold_mask_total by blast
  obtain mp where mp: "min_pixels proc mt = Inr mp" using pa by (simp add: min_pixels_def)
  let ?g0 = "raster_to_polygons
               (size_filter (binary_morphology m0 (morph_open_radius proc) (morph_close_radius proc)) mp) mt"
  have "gdf_crs ?g0 = Some c" by (simp add: gdf_crs_raster_to_polygons crs)
  from area_stage_total [OF this]
  obtain g1 g where "compute_area_ha utm_area ?g0 = Inr g1" "area_filter g1 proc = Inr g"
    by blast
  then show ?thesis
    unfolding process_index_to_vectors_def Let_def by (simp add: t mp)
qed

lemma pixel_area_sample_meta: "pixel_area_m2 sample_meta = 100"
  by code_simp

text \<open>
  C9: the Area Calculator returns the feature set with the same geometries and the same
  CRS; whenever the set has a CRS it succeeds, and the \<^verbatim>\<open>area_ha\<close> column it adds holds,
  per feature, the area divided by 10000, taken from the reprojected copy when the CRS is
  geographic and from the geometry itself otherwise.
\<close>

theorem area_calculator_keeps_geometry:
  "(\<forall>g'. compute_area_ha utm_area g = Inr g' \<longrightarrow>
          geometry_col g' = geometry_col g \<and> gdf_crs g' = gdf_crs g) \<and>
   (gdf_crs g = Some c \<longrightarrow>
      (\<exists>g'. compute_area_ha utm_area g = Inr g' \<and> geometry_col g' = geometry_col g \<and>
            area_ha_col g' =
              Some (map (\<lambda>x. (if is_geographic c then utm_area x else area x) / 10000)
                        (geometry_col g))))"
proof (intro conjI allI impI)
  fix g' assume "compute_area_ha utm_area g = Inr g'"
  from compute_area_ha_cases [OF this]
  show "geometry_col g' = geometry_col g" and "gdf_crs g' = gdf_crs g" by simp_all
next
  assume "gdf_crs g = Some c"
  then show "\<exists>g'. compute_area_ha utm_area g = Inr g' \<and> geometry_col g' = geometry_col g \<and>
            area_ha_col g' =
              Some (map (\<lambda>x. (if is_geographic c then utm_area x else area x) / 10000)
                        (geometry_col g))"
    by (simp add: compute_area_ha_with_crs)
qed

theorem area_calculator_keeps_geometry_witness:
  "\<exists>g'. compute_area_ha (\<lambda>_. 20000)
          \<lparr>geometry_col = [Polygon [(0, 0)] sample_transform], area_ha_col = None,
           gdf_crs = Some (CRS ''EPSG:4326'' True)\<rparr> = Inr g' \<and>
        geometry_col g' = [Polygon [(0, 0)] sample_transform] \<and>
        area_ha_col g' = Some [2]"
  using area_calculator_keeps_geometry
    [of "\<lambda>_. 20000"
        "\<lparr>geometry_col = [Polygon [(0, 0)] sample_transform], area_ha_col = None,
           gdf_crs = Some (CRS ''EPSG:4326'' True)\<rparr>"
        "CRS ''EPSG:4326'' True"]
  by simp

text \<open>
  C7: empty results propagate without raising. The Vectorizer gives, for a mask without
  set cells, the feature set without features that carries the CRS of the mask's metadata.
  The Area Calculator gives back a feature set without features with an \<^verbatim>\<open>area_ha\<close>
  column that is defined and has no entries. The Layer Processor, on a raster whose pixel
  area is not zero, returns the sentinel \<open>None\<close> and writes nothing when no sample lies in
  the range; and when the raster also has a CRS it never raises: it returns either the
  sentinel or a feature set that is not empty.
\<close>

theorem empty_results_propagate:
  "(ones m = [] \<longrightarrow>
      raster_to_polygons m mt = \<lparr>geometry_col = [], area_ha_col = None, gdf_crs = meta_crs mt\<rparr>) \<and>
   (empty g \<longrightarrow> compute_area_ha utm_area g = Inr (g\<lparr>area_ha_col := Some []\<rparr>)) \<and>
   (pixel_area_m2 mt \<noteq> 0 \<and> threshold_mask arr val_range = Inr m0 \<and> ones m0 = [] \<longrightarrow>
      process_index_to_vectors utm_area name arr mt val_range proc out_dir fmt written
        = (written, Inr None)) \<and>
   (pixel_area_m2 mt \<noteq> 0 \<and> meta_crs mt = Some c \<longrightarrow>
      process_index_to_vectors utm_area name arr mt val_range proc out_dir fmt written
        = (written, Inr None) \<or>
      (\<exists>path driver g'.
         process_index_to_vectors utm_area name arr mt val_range proc out_dir fmt written
           = (written @ [(path, driver, g')], Inr (Some (path, g'))) \<and> \<not> empty g'))"
proof (intro conjI impI)
  assume "ones m = []"
  then show "raster_to_polygons m mt = \<lparr>geometry_col = [], area_ha_col = None, gdf_crs = meta_crs mt\<rparr>"
    by (rule raster_to_polygons_no_cells)
next
  assume "empty g"
  then show "compute_area_ha utm_area g = Inr (g\<lparr>area_ha_col := Some []\<rparr>)"
    by (rule compute_area_ha_empty)
next
  assume "pixel_area_m2 mt \<noteq> 0 \<and> threshold_mask arr val_range = Inr m0 \<and> ones m0 = []"
  then show "process_index_to_vectors utm_area name arr mt val_range proc out_dir fmt written
        = (written, Inr None)"
    by (simp add: process_no_cells)
next
  let ?r = "process_index_to_vectors utm_area name arr mt val_range proc out_dir fmt written"
  assume a: "pixel_area_m2 mt \<noteq> 0 \<and> meta_crs mt = Some c"
  then have ne: "\<And>err. snd ?r \<noteq> Inl err" by (simp add: process_no_error)
  from process_outcome [of utm_area name arr mt val_range proc out_dir fmt written]
  show "?r = (written, Inr None) \<or>
      (\<exists>path driver g'. ?r = (written @ [(path, driver, g')], Inr (Some (path, g'))) \<and> \<not> empty g')"
  proof
    assume "fst ?r = written \<and> (snd ?r = Inr None \<or> (\<exists>err. snd ?r = Inl err))"
    with ne have "fst ?r = written" "snd ?r = Inr None" by auto
    then have "?r = (written, Inr None)" by (metis prod.collapse)
    then show ?thesis by (rule disjI1)
  next
    assume "\<exists>path driver g. ?r = (written @ [(path, driver, g)], Inr (Some (path, g))) \<and>
         within_area_range proc g \<and> \<not> empty g"
    then show ?thesis by blast
  qed
qed

theorem empty_results_propagate_witness:
  "ones [[False, False]] = [] \<and>
   raster_to_polygons [[False, False]] sample_meta
     = \<lparr>geometry_col = [], area_ha_col = None, gdf_crs = Some (CRS ''EPSG:32647'' False)\<rparr> \<and>
   compute_area_ha (\<lambda>_. 0) \<lparr>geometry_col = [], area_ha_col = None, gdf_crs = None\<rparr>
     = Inr \<lparr>geometry_col = [], area_ha_col = Some [], gdf_crs = None\<rparr> \<and>
   process_index_to_vectors (\<lambda>_. 0) ''NDVI'' [[Finite (1 / 2), Finite (1 / 2)]] sample_meta
     (Finite 0, Finite (4 / 10)) sample_proc ''out'' ''GPKG'' [] = ([], Inr None)"
proof -
  have o: "ones [[False, False]] = []" by (simp add: ones_def)
  have e: "empty \<lparr>geometry_col = [], area_ha_col = None, gdf_crs = None\<rparr>"
    by (simp add: empty_def)
  have t: "threshold_mask [[Finite (1 / 2), Finite (1 / 2)]] (Finite 0, Finite (4 / 10))
           = Inr [[False, False]]"
    by (simp add: threshold_mask_eq)
  have p: "pixel_area_m2 sample_meta \<noteq> 0" by (simp add: pixel_area_sample_meta)
  show ?thesis
    using o e t p
      empty_results_propagate
        [of "[[False, False]]" sample_meta
            "\<lparr>geometry_col = [], area_ha_col = None, gdf_crs = None\<rparr>" "\<lambda>_. 0"
            "[[Finite (1 / 2), Finite (1 / 2)]]" "(Finite 0, Finite (4 / 10))" "[[False, False]]"
            "''NDVI''" sample_proc "''out''" "''GPKG''" "[]" "CRS ''EPSG:32647'' False"]
    by (simp add: sample_meta_def)
qed




section \<open>The feature sets that a run writes\<close>

lemma process_written:
  assumes "files_within_area_range proc written"
  shows "files_within_area_range proc
           (fst (process_index_to_vectors utm_area name arr mt val_range proc out_dir fmt written))"
  using process_outcome [of utm_area name arr mt val_range proc out_dir fmt written] assms
  by (auto simp: files_within_area_range_def)

lemma run_combined_written:
  assumes "files_within_area_range proc written"
  shows "files_within_area_range proc
           (fst (run_combined utm_area ndvi r1 gndvi r2 evi2 r3 mt proc outdir fmt results written))"
  using assms unfolding run_combined_def Let_def
  by (auto simp: files_within_area_range_def split: sum.splits dest: area_stage_in_range)

lemma run_written: "files_within_area_range (cfg_processing cfg) (fst (run utm_area fs cfg))"
proof -
  let ?proc = "cfg_processing cfg"
  have nil: "files_within_area_range ?proc []" by (simp add: files_within_area_range_def)
  have step: "files_within_area_range ?proc w'"
    if "process_index_to_vectors utm_area name arr mt val_range ?proc out_dir fmt w = (w', r)"
      and "files_within_area_range ?proc w"
    for name arr mt val_range out_dir fmt w w' r
    using process_written [OF that(2), of utm_area name arr mt val_range out_dir fmt] that(1)
    by simp
  show ?thesis
    unfolding run_def Let_def
    by (auto split: sum.splits prod.splits option.splits
             intro!: run_combined_written nil
             dest!: step [OF _ nil] dest: step)
qed

text \<open>
  C6: every feature set that is final has an \<^verbatim>\<open>area_ha\<close> entry for each feature, all
  within the closed interval from \<open>min_area_ha\<close> to \<open>max_area_ha\<close>. This holds for the
  feature set a layer run returns and for every file a run writes (the three layers and
  their intersection). The filter keeps exactly the rows whose area lies in the interval,
  in order; in particular a feature whose area equals \<open>min_area_ha\<close> is kept (the
  interval being non-empty).
\<close>

theorem final_feature_sets_in_range:
  "(process_index_to_vectors utm_area name arr mt val_range proc out_dir fmt written
      = (w', Inr (Some (path, g))) \<longrightarrow> within_area_range proc g) \<and>
   files_within_area_range (cfg_processing cfg) (fst (run utm_area fs cfg)) \<and>
   (area_ha_col g0 = Some areas \<and> length areas = length (geometry_col g0) \<longrightarrow>
      (\<exists>g' areas'. area_filter g0 proc = Inr g' \<and> area_ha_col g' = Some areas' \<and>
         zip (geometry_col g') areas' =
           filter (\<lambda>(geom, x). min_area_ha proc \<le> x \<and> x \<le> max_area_ha proc)
                  (zip (geometry_col g0) areas) \<and>
         (\<forall>geom. (geom, min_area_ha proc) \<in> set (zip (geometry_col g0) areas) \<and>
                 min_area_ha proc \<le> max_area_ha proc \<longrightarrow>
                 (geom, min_area_ha proc) \<in> set (zip (geometry_col g') areas'))))"
proof (intro conjI impI)
  assume r: "process_index_to_vectors utm_area name arr mt val_range proc out_dir fmt written
      = (w', Inr (Some (path, g)))"
  from process_outcome [of utm_area name arr mt val_range proc out_dir fmt written]
  show "within_area_range proc g" unfolding r by auto
next
  show "files_within_area_range (cfg_processing cfg) (fst (run utm_area fs cfg))"
    by (rule run_written)
next
  assume a: "area_ha_col g0 = Some areas \<and> length areas = length (geometry_col g0)"
  then obtain g' areas' where f: "area_filter g0 proc = Inr g'" "area_ha_col g' = Some areas'"
    and z: "zip (geometry_col g') areas' =
           filter (\<lambda>(geom, x). min_area_ha proc \<le> x \<and> x \<le> max_area_ha proc)
                  (zip (geometry_col g0) areas)"
    using area_filter_rows [of g0 areas proc] by blast
  have "(geom, min_area_ha proc) \<in> set (zip (geometry_col g') areas')"
    if "(geom, min_area_ha proc) \<in> set (zip (geometry_col g0) areas) \<and>
        min_area_ha proc \<le> max_area_ha proc" for geom
    unfolding z using that by simp
  with f z show "\<exists>g' areas'. area_filter g0 proc = Inr g' \<and> area_ha_col g' = Some areas' \<and>
         zip (geometry_col g') areas' =
           filter (\<lambda>(geom, x). min_area_ha proc \<le> x \<and> x \<le> max_area_ha proc)
                  (zip (geometry_col g0) areas) \<and>
         (\<forall>geom. (geom, min_area_ha proc) \<in> set (zip (geometry_col g0) areas) \<and>
                 min_area_ha proc \<le> max_area_ha proc \<longrightarrow>
                 (geom, min_area_ha proc) \<in> set (zip (geometry_col g') areas'))"
    by blast
qed

theorem final_feature_sets_in_range_witness:
  "(\<exists>g'. area_filter
           \<lparr>geometry_col = [Polygon [(0, 0)] sample_transform, Polygon [(1, 1)] sample_transform,
                            Polygon [(2, 2)] sample_transform],
            area_ha_col = Some [5 / 100, 4 / 100, 2], gdf_crs = None\<rparr> sample_proc = Inr g' \<and>
         zip (geometry_col g') [5 / 100] = [(Polygon [(0, 0)] sample_transform, 5 / 100 :: real)])"
proof -
  let ?g0 = "\<lparr>geometry_col = [Polygon [(0, 0)] sample_transform, Polygon [(1, 1)] sample_transform,
                            Polygon [(2, 2)] sample_transform],
            area_ha_col = Some [5 / 100, 4 / 100, 2::real], gdf_crs = None\<rparr>"
  have a: "area_ha_col ?g0 = Some [5 / 100, 4 / 100, 2] \<and>
           length [5 / 100, 4 / 100, 2::real] = length (geometry_col ?g0)"
    by simp
  have m: "min_area_ha sample_proc = 5 / 100" "max_area_ha sample_proc = 1"
    by (simp_all add: sample_proc_def)
  from final_feature_sets_in_range [THEN conjunct2, THEN conjunct2, THEN mp, OF a, of sample_proc]
  obtain g' areas' where f: "area_filter ?g0 sample_proc = Inr g'"
    and c: "area_ha_col g' = Some areas'"
    and z: "zip (geometry_col g') areas' =
           filter (\<lambda>(geom, x). min_area_ha sample_proc \<le> x \<and> x \<le> max_area_ha sample_proc)
                  (zip (geometry_col ?g0) [5 / 100, 4 / 100, 2])"
    by blast
  from f c have "areas' = [5 / 100]"
    by (auto simp: area_filter_def Let_def select_def m)
  with z have "zip (geometry_col g') [5 / 100] = [(Polygon [(0, 0)] sample_transform, 5 / 100 :: real)]"
    by (simp add: m)
  with f show ?thesis by blast
qed

section \<open>Correctness of the region labelling\<close>

lemma offsets_cross:
  "offsets generate_binary_structure = [(- 1, 0), (0, - 1), (0, 0), (0, 1), (1, 0)]"
  by code_simp

lemma neighbours_cross:
  "neighbours generate_binary_structure p q \<longleftrightarrow> p = q \<or> share_edge p q"
proof -
  obtain i j where p: "p = (i, j)" by (cases p)
  obtain k l where q: "q = (k, l)" by (cases q)
  show ?thesis
    unfolding neighbours_def offsets_cross share_edge_def p q
    by (simp; linarith)
qed

lemma share_edge_sym: "share_edge p q \<Longrightarrow> share_edge q p"
  unfolding share_edge_def by linarith

lemma neighbours_cross_refl: "neighbours generate_binary_structure p p"
  by (simp add: neighbours_cross)

lemma neighbours_cross_sym:
  "neighbours generate_binary_structure p q \<Longrightarrow> neighbours generate_binary_structure q p"
  by (auto simp: neighbours_cross share_edge_sym)

lemma set_grow:
  "set (grow s cells reg) = {q \<in> set cells. \<exists>p \<in> set reg. neighbours s p q}"
  by (auto simp: grow_def)

lemma grow_cong: "set reg = set reg' \<Longrightarrow> grow s cells reg = grow s cells reg'"
  by (simp add: grow_def)

lemma filter_by_set: "set (filter P xs) = A \<Longrightarrow> filter P xs = filter (\<lambda>x. x \<in> A) xs"
  by (rule filter_cong) auto

lemma grow_iter_reachable:
  assumes p: "p \<in> set cells"
  shows "set ((grow s cells ^^ k) [p]) \<subseteq> {(a, b). b \<in> set cells \<and> neighbours s a b}\<^sup>* `` {p}"
proof (induction k)
  case 0
  show ?case by simp
next
  case (Suc k)
  show ?case
  proof
    fix q assume "q \<in> set ((grow s cells ^^ Suc k) [p])"
    then obtain r where r: "r \<in> set ((grow s cells ^^ k) [p])" and q: "q \<in> set cells"
      and n: "neighbours s r q"
      by (auto simp: set_grow)
    from r Suc.IH have "(p, r) \<in> {(a, b). b \<in> set cells \<and> neighbours s a b}\<^sup>*" by blast
    moreover have "(r, q) \<in> {(a, b). b \<in> set cells \<and> neighbours s a b}" using q n by simp
    ultimately show "q \<in> {(a, b). b \<in> set cells \<and> neighbours s a b}\<^sup>* `` {p}"
      by (auto intro: rtrancl_into_rtrancl)
  qed
qed

lemma reachable_in_cells:
  assumes "p \<in> set cells" and "(p, q) \<in> {(a, b). b \<in> set cells \<and> neighbours s a b}\<^sup>*"
  shows "q \<in> set cells"
  using assms(2,1) by (induction rule: rtrancl_induct) auto

lemma grow_iter_in_cells:
  assumes "p \<in> set cells"
  shows "set ((grow s cells ^^ k) [p]) \<subseteq> set cells"
  using grow_iter_reachable [OF assms, where s = s and k = k] reachable_in_cells [OF assms, where s = s]
  by blast

lemma grow_iter_mono:
  assumes refl: "\<And>a. neighbours s a a" and p: "p \<in> set cells"
  shows "set ((grow s cells ^^ k) [p]) \<subseteq> set ((grow s cells ^^ Suc k) [p])"
proof
  fix r assume r: "r \<in> set ((grow s cells ^^ k) [p])"
  then have c: "r \<in> set cells" using grow_iter_in_cells [OF p] by blast
  have n: "neighbours s r r" by (rule refl)
  have "r \<in> set (grow s cells ((grow s cells ^^ k) [p]))"
    unfolding set_grow using r c n by blast
  then show "r \<in> set ((grow s cells ^^ Suc k) [p])" by simp
qed

lemma grow_iter_seed:
  assumes refl: "\<And>a. neighbours s a a" and p: "p \<in> set cells"
  shows "p \<in> set ((grow s cells ^^ k) [p])"
proof (induction k)
  case 0
  show ?case by simp
next
  case (Suc k)
  then show ?case using grow_iter_mono [OF refl p, of k] by blast
qed

lemma grow_iter_stable:
  assumes "set ((grow s cells ^^ Suc k) [p]) = set ((grow s cells ^^ k) [p])"
  shows "(grow s cells ^^ Suc (Suc k)) [p] = (grow s cells ^^ Suc k) [p]"
proof -
  have "(grow s cells ^^ Suc (Suc k)) [p] = grow s cells ((grow s cells ^^ Suc k) [p])" by simp
  also have "\<dots> = grow s cells ((grow s cells ^^ k) [p])" by (rule grow_cong [OF assms])
  also have "\<dots> = (grow s cells ^^ Suc k) [p]" by simp
  finally show ?thesis .
qed

lemma grow_iter_progress:
  assumes refl: "\<And>a. neighbours s a a" and p: "p \<in> set cells"
  shows "set ((grow s cells ^^ Suc k) [p]) = set ((grow s cells ^^ k) [p])
         \<or> Suc k \<le> card (set ((grow s cells ^^ k) [p]))"
proof (induction k)
  case 0
  show ?case by simp
next
  case (Suc k)
  show ?case
  proof (cases "set ((grow s cells ^^ Suc k) [p]) = set ((grow s cells ^^ k) [p])")
    case True
    then show ?thesis using grow_iter_stable [OF True] by simp
  next
    case False
    with Suc.IH have c: "Suc k \<le> card (set ((grow s cells ^^ k) [p]))" by blast
    have "set ((grow s cells ^^ k) [p]) \<subset> set ((grow s cells ^^ Suc k) [p])"
      using False grow_iter_mono [OF refl p, of k] by blast
    then have "card (set ((grow s cells ^^ k) [p])) < card (set ((grow s cells ^^ Suc k) [p]))"
      by (intro psubset_card_mono) simp_all
    with c show ?thesis by simp
  qed
qed

lemma component_closed:
  assumes refl: "\<And>a. neighbours s a a" and p: "p \<in> set cells"
    and r: "r \<in> set (component s cells p)" and q: "q \<in> set cells" and n: "neighbours s r q"
  shows "q \<in> set (component s cells p)"
proof -
  let ?n = "length cells"
  have "card (set ((grow s cells ^^ ?n) [p])) \<le> card (set cells)"
    by (rule card_mono) (simp_all add: grow_iter_in_cells [OF p])
  also have "\<dots> \<le> ?n" by (rule card_length)
  finally have "\<not> Suc ?n \<le> card (set ((grow s cells ^^ ?n) [p]))" by simp
  with grow_iter_progress [OF refl p, of ?n]
  have st: "set ((grow s cells ^^ Suc ?n) [p]) = set ((grow s cells ^^ ?n) [p])" by blast
  have "q \<in> set ((grow s cells ^^ Suc ?n) [p])"
    using r q n by (auto simp: set_grow component_def)
  with st show ?thesis by (simp add: component_def)
qed

lemma set_component:
  assumes refl: "\<And>a. neighbours s a a" and p: "p \<in> set cells"
  shows "set (component s cells p) = {(a, b). b \<in> set cells \<and> neighbours s a b}\<^sup>* `` {p}"
proof
  show "set (component s cells p) \<subseteq> {(a, b). b \<in> set cells \<and> neighbours s a b}\<^sup>* `` {p}"
    unfolding component_def by (rule grow_iter_reachable [OF p])
next
  show "{(a, b). b \<in> set cells \<and> neighbours s a b}\<^sup>* `` {p} \<subseteq> set (component s cells p)"
  proof
    fix q assume "q \<in> {(a, b). b \<in> set cells \<and> neighbours s a b}\<^sup>* `` {p}"
    then have "(p, q) \<in> {(a, b). b \<in> set cells \<and> neighbours s a b}\<^sup>*" by simp
    then show "q \<in> set (component s cells p)"
    proof (induction rule: rtrancl_induct)
      case base
      show ?case unfolding component_def by (rule grow_iter_seed [OF refl p])
    next
      case (step y z)
      then show ?case using component_closed [OF refl p, of y z] by simp
    qed
  qed
qed

lemma component_is_filter:
  assumes refl: "\<And>a. neighbours s a a" and p: "p \<in> set cells"
  shows "component s cells p = filter (\<lambda>q. q \<in> set (component s cells p)) cells"
proof -
  from p obtain k where k: "length cells = Suc k" by (cases cells) auto
  have "component s cells p = grow s cells ((grow s cells ^^ k) [p])"
    by (simp add: component_def k)
  then have f: "component s cells p
                = filter (\<lambda>q. \<exists>r \<in> set ((grow s cells ^^ k) [p]). neighbours s r q) cells"
    by (simp add: grow_def)
  show ?thesis
    by (subst f) (rule filter_by_set, simp add: f [symmetric])
qed

lemma sym_edge_linked: "sym (edge_linked m)"
  unfolding sym_def edge_linked_def by (auto intro: share_edge_sym)

lemma region_refl: "p \<in> region m p"
  by (simp add: region_def)

lemma region_sym: "q \<in> region m p \<Longrightarrow> p \<in> region m q"
  unfolding region_def using sym_rtrancl [OF sym_edge_linked, of m]
  by (auto dest: symD)

lemma region_trans: "q \<in> region m p \<Longrightarrow> r \<in> region m q \<Longrightarrow> r \<in> region m p"
  unfolding region_def by auto

lemma region_eq: "q \<in> region m p \<Longrightarrow> region m q = region m p"
  using region_sym region_trans by blast

lemma region_in_ones:
  assumes "p \<in> set (ones m)" and "q \<in> region m p"
  shows "q \<in> set (ones m)"
proof -
  from assms(2) have "(p, q) \<in> (edge_linked m)\<^sup>*" by (simp add: region_def)
  then show ?thesis using assms(1)
    by (induction rule: rtrancl_induct) (auto simp: edge_linked_def)
qed

lemma set_component_region:
  assumes p: "p \<in> set (ones m)"
  shows "set (component generate_binary_structure (ones m) p) = region m p"
proof -
  let ?E = "{(a, b). b \<in> set (ones m) \<and> neighbours generate_binary_structure a b}"
  have c: "set (component generate_binary_structure (ones m) p) = ?E\<^sup>* `` {p}"
    by (rule set_component [OF neighbours_cross_refl p])
  have "?E\<^sup>* `` {p} = region m p"
  proof
    show "?E\<^sup>* `` {p} \<subseteq> region m p"
    proof
      fix q assume "q \<in> ?E\<^sup>* `` {p}"
      then have "(p, q) \<in> ?E\<^sup>*" by simp
      then show "q \<in> region m p"
      proof (induction rule: rtrancl_induct)
        case base
        show ?case by (rule region_refl)
      next
        case (step y z)
        have y: "y \<in> set (ones m)" by (rule region_in_ones [OF p step.IH])
        from step.hyps(2) have z: "z \<in> set (ones m)" and "y = z \<or> share_edge y z"
          by (simp_all add: neighbours_cross)
        then have "z \<in> region m y"
          using y by (auto simp: region_def edge_linked_def)
        with step.IH show ?case by (rule region_trans)
      qed
    qed
  next
    have "edge_linked m \<subseteq> ?E" by (auto simp: edge_linked_def neighbours_cross)
    then have "(edge_linked m)\<^sup>* \<subseteq> ?E\<^sup>*" by (rule rtrancl_mono)
    then show "region m p \<subseteq> ?E\<^sup>* `` {p}" unfolding region_def by blast
  qed
  with c show ?thesis by simp
qed

lemma component_region_filter:
  assumes p: "p \<in> set (ones m)"
  shows "component generate_binary_structure (ones m) p = filter (\<lambda>q. q \<in> region m p) (ones m)"
  using component_is_filter [OF neighbours_cross_refl p]
  by (simp add: set_component_region [OF p])

lemma first_cell_in_region:
  assumes p: "p \<in> set (ones m)"
  shows "first_cell m p \<in> region m p"
proof -
  let ?c = "component generate_binary_structure (ones m) p"
  have "p \<in> set ?c" by (simp add: set_component_region [OF p] region_refl)
  then have "?c \<noteq> []" by auto
  then have "hd ?c \<in> set ?c" by (rule hd_in_set)
  then show ?thesis by (simp add: first_cell_def set_component_region [OF p])
qed

lemma first_cell_in_ones: "p \<in> set (ones m) \<Longrightarrow> first_cell m p \<in> set (ones m)"
  using first_cell_in_region region_in_ones by blast

lemma first_cell_region:
  assumes p: "p \<in> set (ones m)" and q: "q \<in> region m p"
  shows "first_cell m q = first_cell m p"
proof -
  have q1: "q \<in> set (ones m)" by (rule region_in_ones [OF p q])
  show ?thesis
    unfolding first_cell_def component_region_filter [OF p] component_region_filter [OF q1]
    by (simp add: region_eq [OF q])
qed

lemma first_cell_idem:
  "p \<in> set (ones m) \<Longrightarrow> first_cell m (first_cell m p) = first_cell m p"
  by (rule first_cell_region) (simp_all add: first_cell_in_region)

lemma first_cell_in_first_cells:
  "p \<in> set (ones m) \<Longrightarrow> first_cell m p \<in> set (first_cells m)"
  by (simp add: first_cells_def first_cell_in_ones first_cell_idem)

lemma first_cell_eq_iff:
  assumes p: "p \<in> set (ones m)" and q: "q \<in> set (ones m)"
  shows "first_cell m p = first_cell m q \<longleftrightarrow> q \<in> region m p"
proof
  assume e: "first_cell m p = first_cell m q"
  have "first_cell m p \<in> region m p" by (rule first_cell_in_region [OF p])
  moreover have "q \<in> region m (first_cell m p)"
    unfolding e by (rule region_sym [OF first_cell_in_region [OF q]])
  ultimately show "q \<in> region m p" by (rule region_trans)
next
  assume "q \<in> region m p"
  then show "first_cell m p = first_cell m q" by (simp add: first_cell_region [OF p])
qed

lemma index_of_less: "x \<in> set xs \<Longrightarrow> index_of x xs < length xs"
  unfolding index_of_def by (induction xs) auto

lemma nth_index_of: "x \<in> set xs \<Longrightarrow> xs ! index_of x xs = x"
  unfolding index_of_def by (induction xs) auto

lemma index_of_inj: "x \<in> set xs \<Longrightarrow> y \<in> set xs \<Longrightarrow> index_of x xs = index_of y xs \<Longrightarrow> x = y"
  by (metis nth_index_of)

lemma index_of_nth: "distinct xs \<Longrightarrow> i < length xs \<Longrightarrow> index_of (xs ! i) xs = i"
proof (induction xs arbitrary: i)
  case Nil
  then show ?case by simp
next
  case (Cons a xs)
  show ?case
  proof (cases i)
    case 0
    then show ?thesis by (simp add: index_of_def)
  next
    case (Suc k)
    with Cons.prems have k: "k < length xs" and d: "distinct xs" and a: "a \<notin> set xs" by auto
    then have "xs ! k \<noteq> a" by (metis nth_mem)
    with Cons.IH [OF d k] show ?thesis using Suc by (simp add: index_of_def)
  qed
qed

lemma label_unfold:
  "label m =
     (map (\<lambda>i. map (\<lambda>j. if m ! i ! j then Suc (index_of (first_cell m (i, j)) (first_cells m)) else 0)
                     [0..<length (m ! i)])
          [0..<length m],
      length (first_cells m))"
  by (simp add: label_def label_with_def Let_def first_cells_def first_cell_def [abs_def])

lemma shape_label: "shape (fst (label m)) = shape m"
  unfolding label_unfold fst_conv by (rule shape_tabulate)

lemma label_at_ones:
  assumes "p \<in> set (ones m)"
  shows "label_at (fst (label m)) p = Suc (index_of (first_cell m p) (first_cells m))"
proof -
  obtain i j where p: "p = (i, j)" by (cases p)
  with assms have "i < length m" "j < length (m ! i)" "m ! i ! j" by (simp_all add: in_ones_iff)
  then show ?thesis by (simp add: label_unfold label_at_def p)
qed

lemma label_at_background:
  assumes "i < length m" "j < length (m ! i)" "\<not> m ! i ! j"
  shows "label_at (fst (label m)) (i, j) = 0"
  using assms by (simp add: label_unfold label_at_def)

lemma label_at_eq_iff:
  assumes p: "p \<in> set (ones m)" and q: "q \<in> set (ones m)"
  shows "label_at (fst (label m)) p = label_at (fst (label m)) q \<longleftrightarrow> q \<in> region m p"
proof -
  have "index_of (first_cell m p) (first_cells m) = index_of (first_cell m q) (first_cells m)
        \<longleftrightarrow> first_cell m p = first_cell m q"
    using index_of_inj [OF first_cell_in_first_cells [OF p] first_cell_in_first_cells [OF q]]
    by auto
  then show ?thesis
    by (simp add: label_at_ones [OF p] label_at_ones [OF q] first_cell_eq_iff [OF p q])
qed

lemma label_at_range:
  assumes p: "p \<in> set (ones m)"
  shows "1 \<le> label_at (fst (label m)) p \<and> label_at (fst (label m)) p \<le> snd (label m)"
proof -
  have "snd (label m) = length (first_cells m)" by (simp add: label_unfold)
  then show ?thesis
    using index_of_less [OF first_cell_in_first_cells [OF p]]
    by (simp add: label_at_ones [OF p])
qed

lemma distinct_rows:
  assumes d: "\<And>i. distinct (f i)" and r: "\<And>i p. p \<in> set (f i) \<Longrightarrow> fst p = i"
  shows "distinct (concat (map f [0..<n])) \<and> (\<forall>p \<in> set (concat (map f [0..<n])). fst p < n)"
proof (induction n)
  case 0
  show ?case by simp
next
  case (Suc n)
  have disj: "set (concat (map f [0..<n])) \<inter> set (f n) = {}"
  proof (rule ccontr)
    assume "set (concat (map f [0..<n])) \<inter> set (f n) \<noteq> {}"
    then obtain p where a: "p \<in> set (concat (map f [0..<n]))" and b: "p \<in> set (f n)" by blast
    from a Suc.IH have "fst p < n" by blast
    moreover from b have "fst p = n" by (rule r)
    ultimately show False by simp
  qed
  have lt: "\<forall>p \<in> set (concat (map f [0..<Suc n])). fst p < Suc n"
  proof
    fix p assume "p \<in> set (concat (map f [0..<Suc n]))"
    then have "p \<in> set (concat (map f [0..<n])) \<or> p \<in> set (f n)" by auto
    then show "fst p < Suc n"
    proof
      assume "p \<in> set (concat (map f [0..<n]))"
      with Suc.IH have "fst p < n" by blast
      then show ?thesis by simp
    next
      assume "p \<in> set (f n)"
      then show ?thesis by (simp add: r)
    qed
  qed
  have "distinct (concat (map f [0..<Suc n]))"
    using Suc.IH d [of n] disj by simp
  with lt show ?case by blast
qed

lemma distinct_ones: "distinct (ones m)"
proof -
  let ?f = "\<lambda>i. map (\<lambda>j. (i, j)) (filter (\<lambda>j. m ! i ! j) [0..<length (m ! i)])"
  have "distinct (?f i)" for i by (simp add: distinct_map inj_on_def)
  moreover have "fst p = i" if "p \<in> set (?f i)" for i p using that by auto
  ultimately have "distinct (concat (map ?f [0..<length m]))"
    using distinct_rows [of ?f "length m"] by blast
  then show ?thesis by (simp add: ones_def)
qed

lemma distinct_first_cells: "distinct (first_cells m)"
  by (simp add: first_cells_def distinct_ones)

lemma label_onto:
  assumes "1 \<le> l" and "l \<le> snd (label m)"
  shows "\<exists>p \<in> set (ones m). label_at (fst (label m)) p = l"
proof -
  have n: "snd (label m) = length (first_cells m)" by (simp add: label_unfold)
  let ?r = "first_cells m ! (l - 1)"
  have i: "l - 1 < length (first_cells m)" using assms n by simp
  then have rin: "?r \<in> set (first_cells m)" by (rule nth_mem)
  then have r: "?r \<in> set (ones m)" and f: "first_cell m ?r = ?r"
    by (simp_all add: first_cells_def)
  have "label_at (fst (label m)) ?r = Suc (index_of (first_cell m ?r) (first_cells m))"
    by (rule label_at_ones [OF r])
  also have "\<dots> = Suc (index_of ?r (first_cells m))" by (simp only: f)
  also have "\<dots> = Suc (l - 1)" by (simp only: index_of_nth [OF distinct_first_cells i])
  also have "\<dots> = l" using assms(1) by simp
  finally show ?thesis using r by blast
qed

text \<open>
  C1, as stated: regions are formed under 8-connectivity, so two set cells that touch only
  at a corner are one region. The labelling gives them two labels and counts two regions.
\<close>

theorem diagonal_cells_are_two_regions:
  "label [[True, False], [False, True]] = ([[1, 0], [0, 2]], 2)"
  by code_simp

text \<open>
  C1, amended: for every binary mask the Region Labeler partitions the set cells into the
  maximal regions under edge connectivity (4-connectivity: cells that touch only at a
  corner are not connected by that). The labelled array has the mask's shape; a cell
  carries 0 exactly when it is not set; two set cells carry the same label exactly when
  they lie in one region; and the labels used are exactly \<open>1, ..., n\<close>, where \<open>n\<close> is the
  region count that is returned.
\<close>

theorem label_partitions_edge_regions:
  "shape (fst (label m)) = shape m \<and>
   (\<forall>i < length m. \<forall>j < length (m ! i).
      label_at (fst (label m)) (i, j) = 0 \<longleftrightarrow> \<not> m ! i ! j) \<and>
   (\<forall>p \<in> set (ones m). \<forall>q \<in> set (ones m).
      label_at (fst (label m)) p = label_at (fst (label m)) q \<longleftrightarrow> q \<in> region m p) \<and>
   (\<forall>p \<in> set (ones m).
      1 \<le> label_at (fst (label m)) p \<and> label_at (fst (label m)) p \<le> snd (label m)) \<and>
   (\<forall>l. 1 \<le> l \<and> l \<le> snd (label m) \<longrightarrow>
      (\<exists>p \<in> set (ones m). label_at (fst (label m)) p = l))"
proof (intro conjI allI impI ballI)
  show "shape (fst (label m)) = shape m" by (rule shape_label)
next
  fix i j assume i: "i < length m" and j: "j < length (m ! i)"
  show "label_at (fst (label m)) (i, j) = 0 \<longleftrightarrow> \<not> m ! i ! j"
  proof (cases "m ! i ! j")
    case True
    with i j have "(i, j) \<in> set (ones m)" by (simp add: in_ones_iff)
    from label_at_range [OF this] True show ?thesis by simp
  next
    case False
    with label_at_background [OF i j] show ?thesis by simp
  qed
next
  fix p q assume "p \<in> set (ones m)" "q \<in> set (ones m)"
  then show "label_at (fst (label m)) p = label_at (fst (label m)) q \<longleftrightarrow> q \<in> region m p"
    by (rule label_at_eq_iff)
next
  fix p assume p: "p \<in> set (ones m)"
  from label_at_range [OF p]
  show "1 \<le> label_at (fst (label m)) p" and "label_at (fst (label m)) p \<le> snd (label m)"
    by simp_all
next
  fix l assume "1 \<le> l \<and> l \<le> snd (label m)"
  then show "\<exists>p \<in> set (ones m). label_at (fst (label m)) p = l"
    by (simp add: label_onto)
qed

theorem label_partitions_edge_regions_witness:
  "(0, 0) \<in> set (ones [[True, True], [False, True]]) \<and>
   (1, 1) \<in> set (ones [[True, True], [False, True]]) \<and>
   (1, 1) \<in> region [[True, True], [False, True]] (0, 0) \<and>
   (0, 0) \<notin> region [[True, False], [False, True]] (1, 1)"
proof -
  have a: "(0, 0) \<in> set (ones [[True, True], [False, True]])"
    and b: "(1, 1) \<in> set (ones [[True, True], [False, True]])"
    by (simp_all add: in_ones_iff)
  have l: "label [[True, True], [False, True]] = ([[1, 1], [0, 1]], 1)" by code_simp
  have c: "(1, 1) \<in> set (ones [[True, False], [False, True]])"
    and d: "(0, 0) \<in> set (ones [[True, False], [False, True]])"
    by (simp_all add: in_ones_iff)
  have l2: "label [[True, False], [False, True]] = ([[1, 0], [0, 2]], 2)" by code_simp
  have "(1, 1) \<in> region [[True, True], [False, True]] (0, 0)"
    using label_partitions_edge_regions
      [of "[[True, True], [False, True]]", THEN conjunct2, THEN conjunct2, THEN conjunct1,
       rule_format, OF a b]
    unfolding l by (simp add: label_at_def)
  moreover have "(0, 0) \<notin> region [[True, False], [False, True]] (1, 1)"
    using label_partitions_edge_regions
      [of "[[True, False], [False, True]]", THEN conjunct2, THEN conjunct2, THEN conjunct1,
       rule_format, OF c d]
    unfolding l2 by (simp add: label_at_def)
  ultimately show ?thesis using a b by blast
qed

section \<open>Correctness of the region size filter\<close>

lemma length_filter_nth:
  "length (filter (\<lambda>j. P (xs ! j)) [0..<length xs]) = length (filter P xs)"
proof (induction xs rule: rev_induct)
  case Nil
  show ?case by simp
next
  case (snoc x xs)
  have "filter (\<lambda>j. P ((xs @ [x]) ! j)) [0..<length xs] = filter (\<lambda>j. P (xs ! j)) [0..<length xs]"
    by (rule filter_cong) (simp_all add: nth_append)
  with snoc show ?case by simp
qed

lemma sum_list_nth: "sum_list (map (\<lambda>i. f (xs ! i)) [0..<length xs]) = sum_list (map f xs)"
proof -
  have "map (\<lambda>i. f (xs ! i)) [0..<length xs] = map f (map (\<lambda>i. xs ! i) [0..<length xs])"
    by simp
  also have "\<dots> = map f xs" by (simp only: map_nth)
  finally show ?thesis by simp
qed

lemma np_sum_ones: "np_sum m = length (ones m)"
proof -
  have "length (ones m)
        = sum_list (map (\<lambda>i. length (filter (\<lambda>j. m ! i ! j) [0..<length (m ! i)])) [0..<length m])"
    by (simp add: ones_def length_concat comp_def)
  also have "\<dots> = sum_list (map (\<lambda>i. length (filter (\<lambda>x. x) (m ! i))) [0..<length m])"
    using length_filter_nth [of "\<lambda>x. x"] by simp
  also have "\<dots> = sum_list (map (\<lambda>row. length (filter (\<lambda>x. x) row)) m)"
    by (rule sum_list_nth)
  finally show ?thesis by (simp add: np_sum_def)
qed

lemma np_sum_card: "np_sum m = card (set (ones m))"
  by (simp add: np_sum_ones distinct_card [OF distinct_ones])

lemma ones_label_mask:
  assumes p: "p \<in> set (ones m)"
  shows "set (ones (map (map (\<lambda>l. l = label_at (fst (label m)) p)) (fst (label m)))) = region m p"
proof -
  let ?L = "fst (label m)"
  have len: "length ?L = length m" by (rule shape_length [OF shape_label])
  have rl: "length (?L ! i) = length (m ! i)" if "i < length m" for i
    using shape_row_length [OF shape_label, of i m] that len by simp
  have pos: "1 \<le> label_at ?L p" using label_at_range [OF p] by simp
  show ?thesis
  proof (intro set_eqI iffI)
    fix q assume q: "q \<in> set (ones (map (map (\<lambda>l. l = label_at ?L p)) ?L))"
    obtain i j where qq: "q = (i, j)" by (cases q)
    from q have i: "i < length m" and j: "j < length (m ! i)" and e: "label_at ?L q = label_at ?L p"
      unfolding qq using len rl by (auto simp: in_ones_iff label_at_def)
    have "m ! i ! j"
    proof (rule ccontr)
      assume "\<not> m ! i ! j"
      from label_at_background [OF i j this] e pos show False by (simp add: qq)
    qed
    with i j have q1: "q \<in> set (ones m)" by (simp add: qq in_ones_iff)
    from e show "q \<in> region m p" using label_at_eq_iff [OF p q1] by simp
  next
    fix q assume q: "q \<in> region m p"
    have q1: "q \<in> set (ones m)" by (rule region_in_ones [OF p q])
    obtain i j where qq: "q = (i, j)" by (cases q)
    from q1 have i: "i < length m" and j: "j < length (m ! i)" by (simp_all add: qq in_ones_iff)
    have "label_at ?L q = label_at ?L p" using label_at_eq_iff [OF p q1] q by simp
    then show "q \<in> set (ones (map (map (\<lambda>l. l = label_at ?L p)) ?L))"
      using i j len rl by (simp add: qq in_ones_iff label_at_def)
  qed
qed

lemma label_mask_sum:
  assumes "p \<in> set (ones m)"
  shows "np_sum (map (map (\<lambda>l. l = label_at (fst (label m)) p)) (fst (label m))) = card (region m p)"
  by (simp add: np_sum_card ones_label_mask [OF assms])

lemma shape_assign_where:
  assumes "shape clean = shape reg"
  shows "shape (assign_where clean reg) = shape clean"
  unfolding shape_def assign_where_def
  by (rule nth_equalityI)
     (simp_all add: shape_length [OF assms] shape_row_length [OF assms])

lemma nth_assign_where:
  assumes "shape clean = shape reg" "i < length clean" "j < length (clean ! i)"
  shows "assign_where clean reg ! i ! j = (reg ! i ! j \<or> clean ! i ! j)"
  using assms shape_length [OF assms(1)] shape_row_length [OF assms(1) assms(2)]
  by (simp add: assign_where_def)

lemma shape_keep_region:
  assumes "shape clean = shape labeled"
  shows "shape (keep_region labeled mp k clean) = shape labeled"
proof -
  have "shape clean = shape (map (map (\<lambda>l. l = k)) labeled)"
    using assms by (simp add: shape_def)
  from shape_assign_where [OF this] assms show ?thesis
    by (simp add: keep_region_def Let_def)
qed

lemma nth_keep_region:
  assumes s: "shape clean = shape labeled" and i: "i < length labeled" and j: "j < length (labeled ! i)"
  shows "keep_region labeled mp k clean ! i ! j
         = (clean ! i ! j \<or> (labeled ! i ! j = k \<and> mp \<le> int (np_sum (map (map (\<lambda>l. l = k)) labeled))))"
proof -
  have s2: "shape clean = shape (map (map (\<lambda>l. l = k)) labeled)"
    using s by (simp add: shape_def)
  have i2: "i < length clean" using i shape_length [OF s] by simp
  have j2: "j < length (clean ! i)" using j shape_row_length [OF s i2] by simp
  show ?thesis
    using nth_assign_where [OF s2 i2 j2] i j
    by (auto simp: keep_region_def Let_def)
qed

lemma fold_keep_region:
  assumes "shape clean = shape labeled"
  shows "shape (fold (keep_region labeled mp) ks clean) = shape labeled \<and>
         (\<forall>i < length labeled. \<forall>j < length (labeled ! i).
            fold (keep_region labeled mp) ks clean ! i ! j
            = (clean ! i ! j \<or>
               (labeled ! i ! j \<in> set ks \<and>
                mp \<le> int (np_sum (map (map (\<lambda>l. l = labeled ! i ! j)) labeled)))))"
  using assms
proof (induction ks arbitrary: clean)
  case Nil
  then show ?case by simp
next
  case (Cons k ks)
  have s: "shape (keep_region labeled mp k clean) = shape labeled"
    by (rule shape_keep_region [OF Cons.prems])
  from Cons.IH [OF s] have sh: "shape (fold (keep_region labeled mp) ks (keep_region labeled mp k clean)) = shape labeled"
    and cells: "\<And>i j. i < length labeled \<Longrightarrow> j < length (labeled ! i) \<Longrightarrow>
            fold (keep_region labeled mp) ks (keep_region labeled mp k clean) ! i ! j
            = (keep_region labeled mp k clean ! i ! j \<or>
               (labeled ! i ! j \<in> set ks \<and>
                mp \<le> int (np_sum (map (map (\<lambda>l. l = labeled ! i ! j)) labeled))))"
    by blast+
  show ?case
  proof (intro conjI allI impI)
    show "shape (fold (keep_region labeled mp) (k # ks) clean) = shape labeled"
      using sh by simp
  next
    fix i j assume i: "i < length labeled" and j: "j < length (labeled ! i)"
    show "fold (keep_region labeled mp) (k # ks) clean ! i ! j
            = (clean ! i ! j \<or>
               (labeled ! i ! j \<in> set (k # ks) \<and>
                mp \<le> int (np_sum (map (map (\<lambda>l. l = labeled ! i ! j)) labeled))))"
      using cells [OF i j] nth_keep_region [OF Cons.prems i j, of mp k]
      by auto
  qed
qed

lemma size_filter_cells:
  "shape (size_filter m mp) = shape m \<and>
   (\<forall>i < length m. \<forall>j < length (m ! i).
      size_filter m mp ! i ! j \<longleftrightarrow> m ! i ! j \<and> mp \<le> int (card (region m (i, j))))"
proof -
  obtain labeled n where l: "label m = (labeled, n)" by (cases "label m")
  then have L: "labeled = fst (label m)" and N: "n = snd (label m)" by simp_all
  have sl: "shape labeled = shape m" unfolding L by (rule shape_label)
  have sz: "shape (zeros_like m) = shape labeled" by (simp add: sl shape_zeros_like)
  note f = fold_keep_region [OF sz, of mp "[1..<n + 1]"]
  have sf: "size_filter m mp = fold (keep_region labeled mp) [1..<n + 1] (zeros_like m)"
    by (simp add: size_filter_def l)
  have len: "length labeled = length m" by (rule shape_length [OF sl])
  show ?thesis
  proof (intro conjI allI impI)
    show "shape (size_filter m mp) = shape m" using f sl by (simp add: sf)
  next
    fix i j assume i: "i < length m" and j: "j < length (m ! i)"
    have i1: "i < length labeled" using i len by simp
    have j1: "j < length (labeled ! i)" using j shape_row_length [OF sl i1] by simp
    have z: "\<not> zeros_like m ! i ! j" using i j by (simp add: zeros_like_def)
    from f i1 j1 z
    have c: "size_filter m mp ! i ! j
             = (labeled ! i ! j \<in> set [1..<n + 1] \<and>
                mp \<le> int (np_sum (map (map (\<lambda>l. l = labeled ! i ! j)) labeled)))"
      by (simp add: sf)
    show "size_filter m mp ! i ! j \<longleftrightarrow> m ! i ! j \<and> mp \<le> int (card (region m (i, j)))"
    proof (cases "m ! i ! j")
      case True
      with i j have p: "(i, j) \<in> set (ones m)" by (simp add: in_ones_iff)
      have la: "labeled ! i ! j = label_at (fst (label m)) (i, j)" by (simp add: L label_at_def)
      have rng: "labeled ! i ! j \<in> set [1..<n + 1]"
        using label_at_range [OF p] by (auto simp: la N)
      have "np_sum (map (map (\<lambda>l. l = labeled ! i ! j)) labeled) = card (region m (i, j))"
        unfolding la using label_mask_sum [OF p] by (simp add: L)
      with c rng True show ?thesis by simp
    next
      case False
      have "labeled ! i ! j = 0"
        using label_at_background [OF i j False] by (simp add: L label_at_def)
      with c False show ?thesis by simp
    qed
  qed
qed

subsection \<open>Accuracy of the double rounding\<close>

lemma pow2_pos: "0 < pow2 n"
  by (simp add: pow2_def)

lemma pow2_nonneg_exp: "0 \<le> n \<Longrightarrow> pow2 n = 2 ^ nat n"
  by (simp add: pow2_def power_int_def)

lemma pow2_neg_exp: "n \<le> 0 \<Longrightarrow> pow2 n = 1 / 2 ^ nat (- n)"
  by (cases "n = 0") (simp_all add: pow2_def power_int_def inverse_eq_divide power_one_over)

lemma pow2_diff: "pow2 (m - n) = pow2 m / pow2 n"
  by (simp add: pow2_def power_int_diff)

lemma ilog2_bounds:
  assumes "0 < x"
  shows "pow2 (ilog2 x) \<le> x \<and> x < pow2 (ilog2 x + 1)"
proof (cases "1 \<le> x")
  case True
  let ?n = "\<lfloor>x\<rfloor>"
  have n: "0 < ?n" using True by simp
  from bitlen_bounds [OF n]
  have lo: "2 ^ nat (bitlen ?n - 1) \<le> ?n" and hi: "?n < 2 ^ nat (bitlen ?n)" by simp_all
  have b: "1 \<le> bitlen ?n" using n by (simp add: bitlen_alt_def)
  have "real_of_int (2 ^ nat (bitlen ?n - 1)) \<le> real_of_int ?n" using lo by linarith
  then have "(2::real) ^ nat (bitlen ?n - 1) \<le> real_of_int ?n" by simp
  also have "\<dots> \<le> x" by simp
  finally have 1: "pow2 (bitlen ?n - 1) \<le> x"
    using b by (simp add: pow2_nonneg_exp)
  have "?n + 1 \<le> 2 ^ nat (bitlen ?n)" using hi by simp
  then have "real_of_int (?n + 1) \<le> real_of_int (2 ^ nat (bitlen ?n))" by linarith
  then have le: "real_of_int ?n + 1 \<le> 2 ^ nat (bitlen ?n)" by simp
  have "x < real_of_int ?n + 1" by linarith
  with le have "x < 2 ^ nat (bitlen ?n)" by linarith
  then have 2: "x < pow2 (bitlen ?n - 1 + 1)"
    using b by (simp add: pow2_nonneg_exp)
  from 1 2 True show ?thesis by (simp add: ilog2_def)
next
  case False
  let ?y = "1 / x"
  let ?m = "\<lceil>?y\<rceil> - 1"
  have y: "1 < ?y" using False assms by simp
  then have m: "0 < ?m" by (simp; linarith)
  from bitlen_bounds [OF m]
  have lo: "2 ^ nat (bitlen ?m - 1) \<le> ?m" and hi: "?m < 2 ^ nat (bitlen ?m)" by simp_all
  have b: "1 \<le> bitlen ?m" using m by (simp add: bitlen_alt_def)
  have my: "real_of_int ?m < ?y" by linarith
  have "real_of_int (2 ^ nat (bitlen ?m - 1)) \<le> real_of_int ?m" using lo by linarith
  with my have ylo: "2 ^ nat (bitlen ?m - 1) < ?y" by simp
  have "\<lceil>?y\<rceil> \<le> 2 ^ nat (bitlen ?m)" using hi by simp
  then have "real_of_int \<lceil>?y\<rceil> \<le> real_of_int (2 ^ nat (bitlen ?m))" by linarith
  then have c: "real_of_int \<lceil>?y\<rceil> \<le> 2 ^ nat (bitlen ?m)" by simp
  have "?y \<le> real_of_int \<lceil>?y\<rceil>" by (rule le_of_int_ceiling)
  with c have yhi: "?y \<le> 2 ^ nat (bitlen ?m)" by linarith
  have 1: "pow2 (- bitlen ?m) \<le> x"
  proof -
    have "1 \<le> 2 ^ nat (bitlen ?m) * x"
      using yhi assms by (simp add: pos_divide_le_eq)
    then have "1 / 2 ^ nat (bitlen ?m) \<le> x"
      by (simp add: pos_divide_le_eq mult.commute)
    then show ?thesis using b by (simp add: pow2_neg_exp)
  qed
  have 2: "x < pow2 (- bitlen ?m + 1)"
  proof -
    have "2 ^ nat (bitlen ?m - 1) * x < 1"
      using ylo assms by (simp add: pos_less_divide_eq)
    then have "x < 1 / 2 ^ nat (bitlen ?m - 1)"
      by (simp add: pos_less_divide_eq mult.commute)
    moreover have "pow2 (- bitlen ?m + 1) = 1 / 2 ^ nat (bitlen ?m - 1)"
      using b pow2_neg_exp [of "- bitlen ?m + 1"] by simp
    ultimately show ?thesis by simp
  qed
  from 1 2 False show ?thesis by (simp add: ilog2_def)
qed

lemma rne_error: "\<bar>of_int (rne y) - y\<bar> \<le> 1 / 2"
proof -
  have "0 \<le> y - of_int \<lfloor>y\<rfloor>" "y - of_int \<lfloor>y\<rfloor> < 1" by linarith+
  then show ?thesis by (auto simp: rne_def Let_def)
qed

text \<open>
  The rounding stays within half a unit in the last place: its relative error is at most
  \<open>2\<^sup>-\<^sup>5\<^sup>3\<close>.
\<close>

lemma round_double_error: "\<bar>round_double x - x\<bar> \<le> \<bar>x\<bar> / 2 ^ 53"
proof (cases "x = 0")
  case True
  then show ?thesis by (simp add: round_double_def)
next
  case False
  let ?a = "\<bar>x\<bar>"
  let ?ulp = "pow2 (ilog2 ?a - 52)"
  have a: "0 < ?a" using False by simp
  have u: "0 < ?ulp" by (rule pow2_pos)
  have "\<bar>of_int (rne (?a / ?ulp)) - ?a / ?ulp\<bar> \<le> 1 / 2" by (rule rne_error)
  then have "\<bar>of_int (rne (?a / ?ulp)) - ?a / ?ulp\<bar> * ?ulp \<le> 1 / 2 * ?ulp"
    using u by (intro mult_right_mono) simp_all
  moreover have "\<bar>of_int (rne (?a / ?ulp)) - ?a / ?ulp\<bar> * ?ulp
                 = \<bar>of_int (rne (?a / ?ulp)) * ?ulp - ?a\<bar>"
  proof -
    have "\<bar>of_int (rne (?a / ?ulp)) - ?a / ?ulp\<bar> * ?ulp
          = \<bar>(of_int (rne (?a / ?ulp)) - ?a / ?ulp) * ?ulp\<bar>"
      using u by (simp add: abs_mult)
    also have "(of_int (rne (?a / ?ulp)) - ?a / ?ulp) * ?ulp = of_int (rne (?a / ?ulp)) * ?ulp - ?a"
      using u by (simp add: algebra_simps)
    finally show ?thesis .
  qed
  ultimately have e: "\<bar>of_int (rne (?a / ?ulp)) * ?ulp - ?a\<bar> \<le> ?ulp / 2" by simp
  have "?ulp = pow2 (ilog2 ?a) / 2 ^ 52"
    by (simp add: pow2_diff pow2_nonneg_exp)
  also have "\<dots> \<le> ?a / 2 ^ 52"
    using ilog2_bounds [OF a] by (intro divide_right_mono) simp_all
  finally have "?ulp / 2 \<le> ?a / 2 ^ 53" by simp
  with e have b: "\<bar>of_int (rne (?a / ?ulp)) * ?ulp - ?a\<bar> \<le> ?a / 2 ^ 53" by linarith
  have "sgn x * ?a = x" by (rule mult_sgn_abs)
  then have "round_double x - x = sgn x * (of_int (rne (?a / ?ulp)) * ?ulp - ?a)"
    using False by (simp add: round_double_def Let_def right_diff_distrib mult.assoc)
  then have "\<bar>round_double x - x\<bar> = \<bar>of_int (rne (?a / ?ulp)) * ?ulp - ?a\<bar>"
    using False by (simp add: abs_mult abs_sgn_eq)
  with b show ?thesis by simp
qed

subsection \<open>The minimum pixel count and the filtered mask\<close>

text \<open>
  C2, as stated: the minimum pixel count is the ceiling of
  \<open>min_area_ha * 10000 / pixel_area_m2\<close>, and a region with fewer pixels is zeroed. With
  10 m pixels and a minimum of 0.015 ha the quotient is 1.5: the ceiling is 2, the code
  computes 1, and a region of one pixel is kept.
\<close>

theorem one_pixel_region_kept_below_ceiling:
  "min_pixels (sample_proc\<lparr>min_area_ha := 15 / 1000\<rparr>) sample_meta = Inr 1 \<and>
   \<lceil>min_area_ha (sample_proc\<lparr>min_area_ha := 15 / 1000\<rparr>) * 10000 / pixel_area_m2 sample_meta\<rceil> = 2 \<and>
   size_filter [[True]] 1 = [[True]]"
proof -
  have "size_filter [[True]] 1 = [[True]]" by code_simp
  moreover have "min_pixels (sample_proc\<lparr>min_area_ha := 15 / 1000\<rparr>) sample_meta = Inr 1"
    by code_simp
  moreover have "\<lceil>3 / 2 :: real\<rceil> = 2" by (simp add: ceiling_eq_iff)
  ultimately show ?thesis
    by (simp add: pixel_area_sample_meta)
qed

text \<open>
  C2, amended: the per-cell pixel area is \<open>|a| * |e|\<close> from the affine transform, as a
  product of doubles; the minimum pixel count is
  \<^verbatim>\<open>int(min_area_ha * 10000 / pixel_area_m2)\<close>, the quotient as computed in doubles and
  truncated towards zero (its floor when it is not negative), and the division fails on a
  zero pixel area; the output mask has the input's shape, and a cell is set in it exactly
  when it is set in the input and its region under edge connectivity has at least that
  many cells. So every region with fewer cells is zeroed and every other region is kept.
\<close>

theorem size_filter_keeps_large_regions:
  "pixel_area_m2 mt =
     double_mul \<bar>round_double (coef_a (transform mt))\<bar> \<bar>round_double (coef_e (transform mt))\<bar> \<and>
   (pixel_area_m2 mt = 0 \<longrightarrow> min_pixels proc mt = Inl ZeroDivisionError) \<and>
   (pixel_area_m2 mt \<noteq> 0 \<longrightarrow>
      min_pixels proc mt =
        Inr (py_int (double_div (double_mul (round_double (min_area_ha proc)) 10000)
                                (pixel_area_m2 mt)))) \<and>
   (\<forall>x. (0 \<le> x \<longrightarrow> py_int x = \<lfloor>x\<rfloor>) \<and> (x \<le> 0 \<longrightarrow> py_int x = \<lceil>x\<rceil>)) \<and>
   shape (size_filter m mp) = shape m \<and>
   (\<forall>i < length m. \<forall>j < length (m ! i).
      size_filter m mp ! i ! j \<longleftrightarrow> m ! i ! j \<and> mp \<le> int (card (region m (i, j))))"
proof -
  have "py_int x = \<lceil>x\<rceil>" if "x \<le> 0" for x
  proof (cases "x = 0")
    case True
    then show ?thesis by (simp add: py_int_def)
  next
    case False
    with that show ?thesis by (simp add: py_int_def)
  qed
  moreover have "py_int x = \<lfloor>x\<rfloor>" if "0 \<le> x" for x
    using that by (simp add: py_int_def)
  moreover have "pixel_area_m2 mt =
     double_mul \<bar>round_double (coef_a (transform mt))\<bar> \<bar>round_double (coef_e (transform mt))\<bar>"
    by (simp add: pixel_area_m2_def)
  ultimately show ?thesis
    using size_filter_cells [of m mp]
    by (simp add: min_pixels_def)
qed

theorem size_filter_keeps_large_regions_witness:
  "pixel_area_m2 sample_meta \<noteq> 0 \<and> min_pixels sample_proc sample_meta = Inr 5 \<and>
   min_pixels (sample_proc\<lparr>min_area_ha := 57 / 100\<rparr>) sample_meta = Inr 56 \<and>
   size_filter [[True, True], [False, False]] 2 ! 0 ! 0 \<and>
   2 \<le> int (card (region [[True, True], [False, False]] (0, 0)))"
proof -
  have v2: "py_int (double_div (double_mul (round_double (min_area_ha (sample_proc\<lparr>min_area_ha := 57 / 100\<rparr>))) 10000)
                               (pixel_area_m2 sample_meta)) = 56"
    by code_simp
  have p: "pixel_area_m2 sample_meta \<noteq> 0" by (simp add: pixel_area_sample_meta)
  have v: "py_int (double_div (double_mul (round_double (min_area_ha sample_proc)) 10000)
                              (pixel_area_m2 sample_meta)) = 5"
    by code_simp
  have s: "size_filter [[True, True], [False, False]] 2 = [[True, True], [False, False]]"
    by code_simp
  note t = size_filter_keeps_large_regions [of sample_meta sample_proc "[[True, True], [False, False]]" 2]
  from t p v have a: "min_pixels sample_proc sample_meta = Inr 5" by simp
  from size_filter_keeps_large_regions
         [of sample_meta "sample_proc\<lparr>min_area_ha := 57 / 100\<rparr>" "[[True, True], [False, False]]" 2]
       p v2
  have a2: "min_pixels (sample_proc\<lparr>min_area_ha := 57 / 100\<rparr>) sample_meta = Inr 56" by simp
  from t have "\<forall>i < length [[True, True], [False, False]].
      \<forall>j < length ([[True, True], [False, False]] ! i).
        size_filter [[True, True], [False, False]] 2 ! i ! j \<longleftrightarrow>
        [[True, True], [False, False]] ! i ! j \<and>
        2 \<le> int (card (region [[True, True], [False, False]] (i, j)))"
    by blast
  then have "size_filter [[True, True], [False, False]] 2 ! 0 ! 0 \<longleftrightarrow>
        [[True, True], [False, False]] ! 0 ! 0 \<and>
        2 \<le> int (card (region [[True, True], [False, False]] (0, 0)))"
    by simp
  then have "2 \<le> int (card (region [[True, True], [False, False]] (0, 0)))"
    unfolding s by simp
  with p a a2 show ?thesis unfolding s by simp
qed

section \<open>What a run does with an invalid configuration\<close>

lemma select_none: "\<forall>k \<in> set keep. \<not> k \<Longrightarrow> select keep xs = []"
proof -
  assume a: "\<forall>k \<in> set keep. \<not> k"
  have "filter fst (zip keep xs) = []"
    unfolding filter_empty_conv using a by (auto dest: set_zip_leftD)
  then show ?thesis by (simp add: select_def)
qed

lemma area_filter_empty_interval:
  assumes "max_area_ha proc < min_area_ha proc" and "area_filter g proc = Inr g'"
  shows "empty g'"
proof -
  from assms(2) obtain areas where a: "area_ha_col g = Some areas"
    by (auto simp: area_filter_def split: option.splits)
  have "select (map (\<lambda>x. min_area_ha proc \<le> x \<and> x \<le> max_area_ha proc) areas) (geometry_col g) = []"
    by (rule select_none) (use assms(1) in auto)
  with assms(2) a show ?thesis by (auto simp: area_filter_def Let_def empty_def)
qed

lemma process_empty_interval:
  assumes mm: "max_area_ha proc < min_area_ha proc"
    and pa: "pixel_area_m2 mt \<noteq> 0" and crs: "meta_crs mt = Some c"
  shows "process_index_to_vectors utm_area name arr mt val_range proc out_dir fmt written
         = (written, Inr None)"
proof -
  obtain m0 where t: "threshold_mask arr val_range = Inr m0"
    using threshold_mask_total by blast
  obtain mp where mp: "min_pixels proc mt = Inr mp" using pa by (simp add: min_pixels_def)
  let ?g0 = "raster_to_polygons
               (size_filter (binary_morphology m0 (morph_open_radius proc) (morph_close_radius proc)) mp) mt"
  have "gdf_crs ?g0 = Some c" by (simp add: gdf_crs_raster_to_polygons crs)
  from area_stage_total [OF this]
  obtain g1 g where c: "compute_area_ha utm_area ?g0 = Inr g1" and f: "area_filter g1 proc = Inr g"
    by blast
  have e: "empty g" by (rule area_filter_empty_interval [OF mm f])
  show ?thesis
    unfolding process_index_to_vectors_def Let_def by (simp add: t mp c f e)
qed

lemma combined_mask_total:
  assumes "shape ndvi = shape gndvi" and "shape gndvi = shape evi2"
  shows "\<exists>c0. combined_mask ndvi r1 gndvi r2 evi2 r3 = Inr c0"
  using combined_mask_eq [OF assms, of "fst r1" "snd r1" "fst r2" "snd r2" "fst r3" "snd r3"]
  by simp

lemma run_combined_empty_interval:
  assumes mm: "max_area_ha proc < min_area_ha proc"
    and pa: "pixel_area_m2 mt \<noteq> 0" and crs: "meta_crs mt = Some c"
    and s12: "shape ndvi = shape gndvi" and s23: "shape gndvi = shape evi2"
  shows "run_combined utm_area ndvi r1 gndvi r2 evi2 r3 mt proc outdir fmt results written
         = (written, Inr results)"
proof -
  obtain c0 where t: "combined_mask ndvi r1 gndvi r2 evi2 r3 = Inr c0"
    using combined_mask_total [OF s12 s23] by blast
  obtain mp where mp: "min_pixels proc mt = Inr mp" using pa by (simp add: min_pixels_def)
  let ?g0 = "raster_to_polygons
               (size_filter (binary_morphology c0 (morph_open_radius proc) (morph_close_radius proc)) mp) mt"
  have "gdf_crs ?g0 = Some c" by (simp add: gdf_crs_raster_to_polygons crs)
  from area_stage_total [OF this]
  obtain g1 g where c: "compute_area_ha utm_area ?g0 = Inr g1" and f: "area_filter g1 proc = Inr g"
    by blast
  have e: "empty g" by (rule area_filter_empty_interval [OF mm f])
  show ?thesis
    unfolding run_combined_def Let_def by (simp add: t mp c f e)
qed

lemma run_layers_read:
  assumes "layers_read fs cfg (ndvi, mt) (gndvi, mt2) (evi2, mt3)"
  shows "run utm_area fs cfg =
     (case ndvi_range (cfg_processing cfg) of
           None \<Rightarrow> ([], Inl (KeyError ''ndvi_range''))
         | Some r1 \<Rightarrow>
      (case process_index_to_vectors utm_area ''NDVI'' ndvi mt r1 (cfg_processing cfg)
              (polygons_dir cfg) (vector_fmt cfg) [] of
           (w1, Inl err) \<Rightarrow> (w1, Inl err)
         | (w1, Inr ndvi_res) \<Rightarrow>
      (case gndvi_range (cfg_processing cfg) of
           None \<Rightarrow> (w1, Inl (KeyError ''gndvi_range''))
         | Some r2 \<Rightarrow>
      (case process_index_to_vectors utm_area ''GNDVI'' gndvi mt r2 (cfg_processing cfg)
              (polygons_dir cfg) (vector_fmt cfg) w1 of
           (w2, Inl err) \<Rightarrow> (w2, Inl err)
         | (w2, Inr gndvi_res) \<Rightarrow>
      (case evi2_range (cfg_processing cfg) of
           None \<Rightarrow> (w2, Inl (KeyError ''evi2_range''))
         | Some r3 \<Rightarrow>
      (case process_index_to_vectors utm_area ''EVI2'' evi2 mt r3 (cfg_processing cfg)
              (polygons_dir cfg) (vector_fmt cfg) w2 of
           (w3, Inl err) \<Rightarrow> (w3, Inl err)
         | (w3, Inr evi2_res) \<Rightarrow>
             run_combined utm_area ndvi r1 gndvi r2 evi2 r3 mt (cfg_processing cfg)
               (polygons_dir cfg) (vector_fmt cfg)
               (store ''EVI2'' evi2_res (store ''GNDVI'' gndvi_res (store ''NDVI'' ndvi_res [])))
               w3))))))"
  using assms
  by (simp add: run_def Let_def layers_read_def read_raster_def)

lemma run_empty_interval:
  assumes lr: "layers_read fs cfg (ndvi, mt) (gndvi, mt2) (evi2, mt3)"
    and r: "ndvi_range (cfg_processing cfg) = Some r1" "gndvi_range (cfg_processing cfg) = Some r2"
      "evi2_range (cfg_processing cfg) = Some r3"
    and mm: "max_area_ha (cfg_processing cfg) < min_area_ha (cfg_processing cfg)"
    and pa: "pixel_area_m2 mt \<noteq> 0" and crs: "meta_crs mt = Some c"
    and s12: "shape ndvi = shape gndvi" and s23: "shape gndvi = shape evi2"
  shows "run utm_area fs cfg = ([], Inr [])"
  unfolding run_layers_read [OF lr]
  by (simp add: r process_empty_interval [OF mm pa crs]
        run_combined_empty_interval [OF mm pa crs s12 s23] store_def)

lemma run_meta_ignored:
  assumes "layers_read fs cfg (ndvi, mt) (gndvi, mt2) (evi2, mt3)"
    and "layers_read fs' cfg (ndvi, mt) (gndvi, mt2') (evi2, mt3')"
  shows "run utm_area fs cfg = run utm_area fs' cfg"
  unfolding run_layers_read [OF assms(1)] run_layers_read [OF assms(2)] by (rule refl)

lemma run_missing_ndvi_range:
  assumes "layers_read fs cfg (ndvi, mt) (gndvi, mt2) (evi2, mt3)"
    and "ndvi_range (cfg_processing cfg) = None"
  shows "run utm_area fs cfg = ([], Inl (KeyError ''ndvi_range''))"
  unfolding run_layers_read [OF assms(1)] by (simp add: assms(2))

lemma run_missing_gndvi_range:
  assumes lr: "layers_read fs cfg (ndvi, mt) (gndvi, mt2) (evi2, mt3)"
    and r1: "ndvi_range (cfg_processing cfg) = Some r1"
    and r2: "gndvi_range (cfg_processing cfg) = None"
    and pa: "pixel_area_m2 mt \<noteq> 0" and crs: "meta_crs mt = Some c"
  shows "run utm_area fs cfg =
           (fst (process_index_to_vectors utm_area ''NDVI'' ndvi mt r1 (cfg_processing cfg)
                   (polygons_dir cfg) (vector_fmt cfg) []),
            Inl (KeyError ''gndvi_range''))"
proof -
  let ?p = "process_index_to_vectors utm_area ''NDVI'' ndvi mt r1 (cfg_processing cfg)
                   (polygons_dir cfg) (vector_fmt cfg) []"
  obtain w res where p: "?p = (w, res)" by (cases ?p)
  have "res \<noteq> Inl err" for err
    using process_no_error [OF pa crs, of utm_area "''NDVI''" ndvi r1 "cfg_processing cfg"
        "polygons_dir cfg" "vector_fmt cfg" "[]" err] p by simp
  then obtain v where "res = Inr v" by (cases res) auto
  with p show ?thesis
    unfolding run_layers_read [OF lr] by (simp add: r1 r2)
qed

lemma shape_dims:
  assumes "shape a = shape b"
  shows "nrows a = nrows b \<and> ncols a = ncols b"
proof -
  have "nrows a = nrows b" using shape_length [OF assms] by (simp add: nrows_def)
  moreover have "ncols a = ncols b"
    using assms by (cases a; cases b) (simp_all add: shape_def ncols_def)
  ultimately show ?thesis by simp
qed

lemma np_and_not_broadcastable:
  assumes "\<not> broadcastable a b"
  shows "np_and a b = Inl ValueError"
proof -
  have "shape a \<noteq> shape b"
  proof
    assume "shape a = shape b"
    from shape_dims [OF this] have "broadcastable a b" by (simp add: broadcastable_def bdim_def)
    with assms show False by simp
  qed
  with assms show ?thesis
    by (auto simp: np_and_def broadcastable_def split: option.splits)
qed

lemma broadcastable_shape:
  "shape a = shape a' \<Longrightarrow> shape b = shape b' \<Longrightarrow> broadcastable a b = broadcastable a' b'"
  using shape_dims [of a a'] shape_dims [of b b'] by (simp add: broadcastable_def)

lemma combined_mask_second_mismatch:
  assumes "\<not> broadcastable ndvi gndvi"
  shows "combined_mask ndvi r1 gndvi r2 evi2 r3 = Inl ValueError"
proof -
  let ?c1 = "logical_and (np_ge ndvi (fst r1)) (np_le ndvi (snd r1))"
  have 1: "np_and (np_ge ndvi (fst r1)) (np_le ndvi (snd r1)) = Inr ?c1"
    by (simp add: np_and_same_shape shape_np_ge shape_np_le)
  have s1: "shape ?c1 = shape ndvi"
    by (simp add: shape_logical_and shape_np_ge shape_np_le)
  have "\<not> broadcastable ?c1 (np_ge gndvi (fst r2))"
    using assms broadcastable_shape [OF s1 shape_np_ge [of gndvi "fst r2"]] by simp
  then have "np_and ?c1 (np_ge gndvi (fst r2)) = Inl ValueError"
    by (rule np_and_not_broadcastable)
  with 1 show ?thesis by (simp add: combined_mask_def)
qed

lemma combined_mask_third_mismatch:
  assumes s12: "shape ndvi = shape gndvi" and "\<not> broadcastable ndvi evi2"
  shows "combined_mask ndvi r1 gndvi r2 evi2 r3 = Inl ValueError"
proof -
  let ?c1 = "logical_and (np_ge ndvi (fst r1)) (np_le ndvi (snd r1))"
  let ?c2 = "logical_and ?c1 (np_ge gndvi (fst r2))"
  let ?c3 = "logical_and ?c2 (np_le gndvi (snd r2))"
  have s1: "shape ?c1 = shape ndvi"
    by (simp add: shape_logical_and shape_np_ge shape_np_le)
  have s2: "shape ?c2 = shape ndvi"
    using s1 s12 by (simp add: shape_logical_and shape_np_ge)
  have s3: "shape ?c3 = shape ndvi"
    using s2 s12 by (simp add: shape_logical_and shape_np_le)
  have 1: "np_and (np_ge ndvi (fst r1)) (np_le ndvi (snd r1)) = Inr ?c1"
    by (simp add: np_and_same_shape shape_np_ge shape_np_le)
  have 2: "np_and ?c1 (np_ge gndvi (fst r2)) = Inr ?c2"
    using s1 s12 by (simp add: np_and_same_shape shape_np_ge)
  have 3: "np_and ?c2 (np_le gndvi (snd r2)) = Inr ?c3"
    using s2 s12 by (simp add: np_and_same_shape shape_np_le)
  have "\<not> broadcastable ?c3 (np_ge evi2 (fst r3))"
    using assms(2) broadcastable_shape [OF s3 shape_np_ge [of evi2 "fst r3"]] by simp
  then have "np_and ?c3 (np_ge evi2 (fst r3)) = Inl ValueError"
    by (rule np_and_not_broadcastable)
  with 1 2 3 show ?thesis by (simp add: combined_mask_def)
qed

lemma process_succeeds:
  assumes "pixel_area_m2 mt \<noteq> 0" and "meta_crs mt = Some c"
  shows "\<exists>w res. process_index_to_vectors utm_area name arr mt val_range proc out_dir fmt written
                   = (w, Inr res)"
proof -
  let ?p = "process_index_to_vectors utm_area name arr mt val_range proc out_dir fmt written"
  obtain w r where p: "?p = (w, r)" by (cases ?p)
  have "r \<noteq> Inl err" for err
    using process_no_error [OF assms, of utm_area name arr val_range proc out_dir fmt written err] p
    by simp
  then obtain res where "r = Inr res" by (cases r) auto
  with p show ?thesis by blast
qed

lemma run_missing_third_range:
  assumes lr: "layers_read fs cfg (ndvi, mt) (gndvi, mt2) (evi2, mt3)"
    and r1: "ndvi_range (cfg_processing cfg) = Some r1"
    and r2: "gndvi_range (cfg_processing cfg) = Some r2"
    and r3: "evi2_range (cfg_processing cfg) = None"
    and pa: "pixel_area_m2 mt \<noteq> 0" and crs: "meta_crs mt = Some c"
  shows "\<exists>w1 res1 w2 res2.
           process_index_to_vectors utm_area ''NDVI'' ndvi mt r1 (cfg_processing cfg)
             (polygons_dir cfg) (vector_fmt cfg) [] = (w1, Inr res1) \<and>
           process_index_to_vectors utm_area ''GNDVI'' gndvi mt r2 (cfg_processing cfg)
             (polygons_dir cfg) (vector_fmt cfg) w1 = (w2, Inr res2) \<and>
           run utm_area fs cfg = (w2, Inl (KeyError ''evi2_range''))"
proof -
  obtain w1 res1 where p1: "process_index_to_vectors utm_area ''NDVI'' ndvi mt r1 (cfg_processing cfg)
             (polygons_dir cfg) (vector_fmt cfg) [] = (w1, Inr res1)"
    using process_succeeds [OF pa crs] by blast
  obtain w2 res2 where p2: "process_index_to_vectors utm_area ''GNDVI'' gndvi mt r2 (cfg_processing cfg)
             (polygons_dir cfg) (vector_fmt cfg) w1 = (w2, Inr res2)"
    using process_succeeds [OF pa crs] by blast
  have "run utm_area fs cfg = (w2, Inl (KeyError ''evi2_range''))"
    unfolding run_layers_read [OF lr] by (simp add: r1 r2 r3 p1 p2)
  with p1 p2 show ?thesis by blast
qed

lemma run_shape_mismatch:
  assumes lr: "layers_read fs cfg (ndvi, mt) (gndvi, mt2) (evi2, mt3)"
    and r1: "ndvi_range (cfg_processing cfg) = Some r1"
    and r2: "gndvi_range (cfg_processing cfg) = Some r2"
    and r3: "evi2_range (cfg_processing cfg) = Some r3"
    and pa: "pixel_area_m2 mt \<noteq> 0" and crs: "meta_crs mt = Some c"
    and mis: "\<not> broadcastable ndvi gndvi \<or> (shape ndvi = shape gndvi \<and> \<not> broadcastable ndvi evi2)"
  shows "\<exists>w1 res1 w2 res2 w3 res3.
           process_index_to_vectors utm_area ''NDVI'' ndvi mt r1 (cfg_processing cfg)
             (polygons_dir cfg) (vector_fmt cfg) [] = (w1, Inr res1) \<and>
           process_index_to_vectors utm_area ''GNDVI'' gndvi mt r2 (cfg_processing cfg)
             (polygons_dir cfg) (vector_fmt cfg) w1 = (w2, Inr res2) \<and>
           process_index_to_vectors utm_area ''EVI2'' evi2 mt r3 (cfg_processing cfg)
             (polygons_dir cfg) (vector_fmt cfg) w2 = (w3, Inr res3) \<and>
           run utm_area fs cfg = (w3, Inl ValueError)"
proof -
  obtain w1 res1 where p1: "process_index_to_vectors utm_area ''NDVI'' ndvi mt r1 (cfg_processing cfg)
             (polygons_dir cfg) (vector_fmt cfg) [] = (w1, Inr res1)"
    using process_succeeds [OF pa crs] by blast
  obtain w2 res2 where p2: "process_index_to_vectors utm_area ''GNDVI'' gndvi mt r2 (cfg_processing cfg)
             (polygons_dir cfg) (vector_fmt cfg) w1 = (w2, Inr res2)"
    using process_succeeds [OF pa crs] by blast
  obtain w3 res3 where p3: "process_index_to_vectors utm_area ''EVI2'' evi2 mt r3 (cfg_processing cfg)
             (polygons_dir cfg) (vector_fmt cfg) w2 = (w3, Inr res3)"
    using process_succeeds [OF pa crs] by blast
  have cm: "combined_mask ndvi r1 gndvi r2 evi2 r3 = Inl ValueError"
    using mis combined_mask_second_mismatch combined_mask_third_mismatch by blast
  have "run utm_area fs cfg = (w3, Inl ValueError)"
    unfolding run_layers_read [OF lr]
    by (simp add: r1 r2 r3 p1 p2 p3 run_combined_def cm)
  with p1 p2 p3 show ?thesis by blast
qed

lemma sample_layers_read:
  "layers_read (\<lambda>_. Some (sample_layer, sample_meta)) cfg
     (sample_layer, sample_meta) (sample_layer, sample_meta) (sample_layer, sample_meta)"
  by (simp add: layers_read_def)

lemma meta_crs_sample_meta: "meta_crs sample_meta = Some (CRS ''EPSG:32647'' False)"
  by (simp add: sample_meta_def)

text \<open>
  C3, as stated: a run with \<open>max_area_ha < min_area_ha\<close> fails with a configuration
  error. The sample run with the bounds 0.05 and 0.01 raises nothing: it returns the empty
  dictionary of results and writes no file.
\<close>

theorem inverted_area_bounds_raise_nothing:
  "max_area_ha (cfg_processing (sample_config\<lparr>cfg_processing := sample_proc\<lparr>max_area_ha := 1 / 100\<rparr>\<rparr>))
     < min_area_ha (cfg_processing (sample_config\<lparr>cfg_processing := sample_proc\<lparr>max_area_ha := 1 / 100\<rparr>\<rparr>)) \<and>
   run (\<lambda>_. 0) (\<lambda>_. Some (sample_layer, sample_meta))
     (sample_config\<lparr>cfg_processing := sample_proc\<lparr>max_area_ha := 1 / 100\<rparr>\<rparr>) = ([], Inr [])"
proof -
  let ?cfg = "sample_config\<lparr>cfg_processing := sample_proc\<lparr>max_area_ha := 1 / 100\<rparr>\<rparr>"
  have mm: "max_area_ha (cfg_processing ?cfg) < min_area_ha (cfg_processing ?cfg)"
    by (simp add: sample_proc_def)
  have r: "ndvi_range (cfg_processing ?cfg) = Some (Finite (6 / 10), Finite 1)"
    "gndvi_range (cfg_processing ?cfg) = Some (Finite (6 / 10), Finite 1)"
    "evi2_range (cfg_processing ?cfg) = Some (Finite (6 / 10), Finite 1)"
    by (simp_all add: sample_proc_def)
  have pa: "pixel_area_m2 sample_meta \<noteq> 0" by (simp add: pixel_area_sample_meta)
  have "run (\<lambda>_. 0) (\<lambda>_. Some (sample_layer, sample_meta)) ?cfg = ([], Inr [])"
    by (rule run_empty_interval [OF sample_layers_read r mm pa meta_crs_sample_meta]) simp_all
  with mm show ?thesis by blast
qed

text \<open>
  C3, amended: the run validates none of the three preconditions and has no configuration
  error of its own. For a run whose three rasters are readable and whose first raster has
  a non-zero pixel area and a CRS:
  with \<open>max_area_ha < min_area_ha\<close> (ranges present, layers of one shape) it raises
  nothing, writes no file and returns the empty dictionary;
  a missing threshold range raises \<^verbatim>\<open>KeyError\<close> with the name of the key when the run
  reaches that layer: before any file is written for \<^verbatim>\<open>ndvi_range\<close>, after the first
  layer was processed and its file written for \<^verbatim>\<open>gndvi_range\<close>, after the first two for
  \<^verbatim>\<open>evi2_range\<close>;
  the transform and CRS of the second and third raster have no influence on the run;
  and layers that cannot be broadcast together (the second against the first, or the third
  against the first two when these share a shape) raise numpy's \<^verbatim>\<open>ValueError\<close> when the
  intersection is built, after all three layers were processed and their files written.
\<close>

theorem run_validates_nothing:
  assumes "layers_read fs cfg (ndvi, mt) (gndvi, mt2) (evi2, mt3)"
    and "pixel_area_m2 mt \<noteq> 0" and "meta_crs mt = Some c"
  shows
    "(ndvi_range (cfg_processing cfg) = Some r1 \<and> gndvi_range (cfg_processing cfg) = Some r2 \<and>
      evi2_range (cfg_processing cfg) = Some r3 \<and>
      max_area_ha (cfg_processing cfg) < min_area_ha (cfg_processing cfg) \<and>
      shape ndvi = shape gndvi \<and> shape gndvi = shape evi2 \<longrightarrow>
        run utm_area fs cfg = ([], Inr [])) \<and>
     (ndvi_range (cfg_processing cfg) = None \<longrightarrow>
        run utm_area fs cfg = ([], Inl (KeyError ''ndvi_range''))) \<and>
     (ndvi_range (cfg_processing cfg) = Some r1 \<and> gndvi_range (cfg_processing cfg) = None \<longrightarrow>
        run utm_area fs cfg =
          (fst (process_index_to_vectors utm_area ''NDVI'' ndvi mt r1 (cfg_processing cfg)
                  (polygons_dir cfg) (vector_fmt cfg) []),
           Inl (KeyError ''gndvi_range''))) \<and>
     (ndvi_range (cfg_processing cfg) = Some r1 \<and> gndvi_range (cfg_processing cfg) = Some r2 \<and>
      evi2_range (cfg_processing cfg) = None \<longrightarrow>
        (\<exists>w1 res1 w2 res2.
           process_index_to_vectors utm_area ''NDVI'' ndvi mt r1 (cfg_processing cfg)
             (polygons_dir cfg) (vector_fmt cfg) [] = (w1, Inr res1) \<and>
           process_index_to_vectors utm_area ''GNDVI'' gndvi mt r2 (cfg_processing cfg)
             (polygons_dir cfg) (vector_fmt cfg) w1 = (w2, Inr res2) \<and>
           run utm_area fs cfg = (w2, Inl (KeyError ''evi2_range'')))) \<and>
     (layers_read fs' cfg (ndvi, mt) (gndvi, mt2') (evi2, mt3') \<longrightarrow>
        run utm_area fs' cfg = run utm_area fs cfg) \<and>
     (ndvi_range (cfg_processing cfg) = Some r1 \<and> gndvi_range (cfg_processing cfg) = Some r2 \<and>
      evi2_range (cfg_processing cfg) = Some r3 \<and>
      (\<not> broadcastable ndvi gndvi \<or> (shape ndvi = shape gndvi \<and> \<not> broadcastable ndvi evi2)) \<longrightarrow>
        (\<exists>w1 res1 w2 res2 w3 res3.
           process_index_to_vectors utm_area ''NDVI'' ndvi mt r1 (cfg_processing cfg)
             (polygons_dir cfg) (vector_fmt cfg) [] = (w1, Inr res1) \<and>
           process_index_to_vectors utm_area ''GNDVI'' gndvi mt r2 (cfg_processing cfg)
             (polygons_dir cfg) (vector_fmt cfg) w1 = (w2, Inr res2) \<and>
           process_index_to_vectors utm_area ''EVI2'' evi2 mt r3 (cfg_processing cfg)
             (polygons_dir cfg) (vector_fmt cfg) w2 = (w3, Inr res3) \<and>
           run utm_area fs cfg = (w3, Inl ValueError)))"
proof (intro conjI impI)
  assume "ndvi_range (cfg_processing cfg) = Some r1 \<and> gndvi_range (cfg_processing cfg) = Some r2 \<and>
      evi2_range (cfg_processing cfg) = Some r3 \<and>
      max_area_ha (cfg_processing cfg) < min_area_ha (cfg_processing cfg) \<and>
      shape ndvi = shape gndvi \<and> shape gndvi = shape evi2"
  then show "run utm_area fs cfg = ([], Inr [])"
    using run_empty_interval [OF assms(1) _ _ _ _ assms(2,3)] by blast
next
  assume "ndvi_range (cfg_processing cfg) = None"
  then show "run utm_area fs cfg = ([], Inl (KeyError ''ndvi_range''))"
    by (rule run_missing_ndvi_range [OF assms(1)])
next
  assume "ndvi_range (cfg_processing cfg) = Some r1 \<and> gndvi_range (cfg_processing cfg) = None"
  then show "run utm_area fs cfg =
          (fst (process_index_to_vectors utm_area ''NDVI'' ndvi mt r1 (cfg_processing cfg)
                  (polygons_dir cfg) (vector_fmt cfg) []),
           Inl (KeyError ''gndvi_range''))"
    using run_missing_gndvi_range [OF assms(1) _ _ assms(2,3)] by blast
next
  assume a: "ndvi_range (cfg_processing cfg) = Some r1 \<and> gndvi_range (cfg_processing cfg) = Some r2 \<and>
      evi2_range (cfg_processing cfg) = None"
  show "\<exists>w1 res1 w2 res2.
           process_index_to_vectors utm_area ''NDVI'' ndvi mt r1 (cfg_processing cfg)
             (polygons_dir cfg) (vector_fmt cfg) [] = (w1, Inr res1) \<and>
           process_index_to_vectors utm_area ''GNDVI'' gndvi mt r2 (cfg_processing cfg)
             (polygons_dir cfg) (vector_fmt cfg) w1 = (w2, Inr res2) \<and>
           run utm_area fs cfg = (w2, Inl (KeyError ''evi2_range''))"
    by (rule run_missing_third_range [OF assms(1) _ _ _ assms(2,3)]) (use a in simp_all)
next
  assume "layers_read fs' cfg (ndvi, mt) (gndvi, mt2') (evi2, mt3')"
  then show "run utm_area fs' cfg = run utm_area fs cfg"
    by (rule run_meta_ignored [OF _ assms(1)])
next
  assume a: "ndvi_range (cfg_processing cfg) = Some r1 \<and> gndvi_range (cfg_processing cfg) = Some r2 \<and>
      evi2_range (cfg_processing cfg) = Some r3 \<and>
      (\<not> broadcastable ndvi gndvi \<or> (shape ndvi = shape gndvi \<and> \<not> broadcastable ndvi evi2))"
  show "\<exists>w1 res1 w2 res2 w3 res3.
           process_index_to_vectors utm_area ''NDVI'' ndvi mt r1 (cfg_processing cfg)
             (polygons_dir cfg) (vector_fmt cfg) [] = (w1, Inr res1) \<and>
           process_index_to_vectors utm_area ''GNDVI'' gndvi mt r2 (cfg_processing cfg)
             (polygons_dir cfg) (vector_fmt cfg) w1 = (w2, Inr res2) \<and>
           process_index_to_vectors utm_area ''EVI2'' evi2 mt r3 (cfg_processing cfg)
             (polygons_dir cfg) (vector_fmt cfg) w2 = (w3, Inr res3) \<and>
           run utm_area fs cfg = (w3, Inl ValueError)"
    by (rule run_shape_mismatch [OF assms(1) _ _ _ assms(2,3)]) (use a in simp_all)
qed

theorem run_validates_nothing_witness:
  "layers_read (\<lambda>_. Some (sample_layer, sample_meta))
     (sample_config\<lparr>cfg_processing := sample_proc\<lparr>gndvi_range := None, min_area_ha := 1 / 100\<rparr>\<rparr>)
     (sample_layer, sample_meta) (sample_layer, sample_meta) (sample_layer, sample_meta) \<and>
   pixel_area_m2 sample_meta \<noteq> 0 \<and>
   run (\<lambda>_. 0) (\<lambda>_. Some (sample_layer, sample_meta))
     (sample_config\<lparr>cfg_processing := sample_proc\<lparr>gndvi_range := None, min_area_ha := 1 / 100\<rparr>\<rparr>)
   = ([(''out/polygons/NDVI_polygons.gpkg'', ''GPKG'',
        \<lparr>geometry_col = [Polygon [(0, 0), (0, 1)] sample_transform],
         area_ha_col = Some [1 / 50],
         gdf_crs = Some (CRS ''EPSG:32647'' False)\<rparr>)],
      Inl (KeyError ''gndvi_range'')) \<and>
   \<not> broadcastable sample_layer [[Finite (8 / 10)], [Finite (8 / 10)], [Finite (8 / 10)]] \<and>
   snd (run (\<lambda>_. 0)
          (\<lambda>p. if p = ''out/indices/GNDVI.tif''
               then Some ([[Finite (8 / 10)], [Finite (8 / 10)], [Finite (8 / 10)]], sample_meta)
               else Some (sample_layer, sample_meta))
          (sample_config\<lparr>cfg_processing := sample_proc\<lparr>min_area_ha := 1 / 100\<rparr>\<rparr>))
     = Inl ValueError \<and>
   length (fst (run (\<lambda>_. 0)
          (\<lambda>p. if p = ''out/indices/GNDVI.tif''
               then Some ([[Finite (8 / 10)], [Finite (8 / 10)], [Finite (8 / 10)]], sample_meta)
               else Some (sample_layer, sample_meta))
          (sample_config\<lparr>cfg_processing := sample_proc\<lparr>min_area_ha := 1 / 100\<rparr>\<rparr>))) = 3"
proof -
  let ?fs = "\<lambda>_ :: string. Some (sample_layer, sample_meta)"
  let ?proc = "sample_proc\<lparr>gndvi_range := None, min_area_ha := 1 / 100\<rparr>"
  let ?cfg = "sample_config\<lparr>cfg_processing := ?proc\<rparr>"
  have lr: "layers_read ?fs ?cfg (sample_layer, sample_meta) (sample_layer, sample_meta)
              (sample_layer, sample_meta)"
    by (rule sample_layers_read)
  have pa: "pixel_area_m2 sample_meta \<noteq> 0" by (simp add: pixel_area_sample_meta)
  have r: "ndvi_range (cfg_processing ?cfg) = Some (Finite (6 / 10), Finite 1) \<and>
           gndvi_range (cfg_processing ?cfg) = None"
    by (simp add: sample_proc_def)
  have p: "process_index_to_vectors (\<lambda>_. 0) ''NDVI'' sample_layer sample_meta
             (Finite (6 / 10), Finite 1) (cfg_processing ?cfg) (polygons_dir ?cfg) (vector_fmt ?cfg) []
           = ([(''out/polygons/NDVI_polygons.gpkg'', ''GPKG'',
                \<lparr>geometry_col = [Polygon [(0, 0), (0, 1)] sample_transform],
                 area_ha_col = Some [1 / 50],
                 gdf_crs = Some (CRS ''EPSG:32647'' False)\<rparr>)],
              Inr (Some (''out/polygons/NDVI_polygons.gpkg'',
                \<lparr>geometry_col = [Polygon [(0, 0), (0, 1)] sample_transform],
                 area_ha_col = Some [1 / 50],
                 gdf_crs = Some (CRS ''EPSG:32647'' False)\<rparr>)))"
    by code_simp
  from run_validates_nothing [OF lr pa meta_crs_sample_meta, THEN conjunct2, THEN conjunct2,
      THEN conjunct1, THEN mp, OF r, of "\<lambda>_. 0"]
  have "run (\<lambda>_. 0) ?fs ?cfg
        = (fst (process_index_to_vectors (\<lambda>_. 0) ''NDVI'' sample_layer sample_meta
                  (Finite (6 / 10), Finite 1) (cfg_processing ?cfg) (polygons_dir ?cfg)
                  (vector_fmt ?cfg) []),
           Inl (KeyError ''gndvi_range''))" .
  then have "run (\<lambda>_. 0) ?fs ?cfg
        = ([(''out/polygons/NDVI_polygons.gpkg'', ''GPKG'',
              \<lparr>geometry_col = [Polygon [(0, 0), (0, 1)] sample_transform],
               area_ha_col = Some [1 / 50],
               gdf_crs = Some (CRS ''EPSG:32647'' False)\<rparr>)],
           Inl (KeyError ''gndvi_range''))"
    unfolding p by simp
  note first = this
  let ?tall = "[[Finite (8 / 10)], [Finite (8 / 10)], [Finite (8 / 10)]]"
  let ?fs2 = "\<lambda>p. if p = ''out/indices/GNDVI.tif'' then Some (?tall, sample_meta)
                   else Some (sample_layer, sample_meta)"
  let ?cfg2 = "sample_config\<lparr>cfg_processing := sample_proc\<lparr>min_area_ha := 1 / 100\<rparr>\<rparr>"
  have nb: "\<not> broadcastable sample_layer ?tall" by code_simp
  have lr2: "layers_read ?fs2 ?cfg2 (sample_layer, sample_meta) (?tall, sample_meta)
               (sample_layer, sample_meta)"
    by code_simp
  have r2: "ndvi_range (cfg_processing ?cfg2) = Some (Finite (6 / 10), Finite 1) \<and>
            gndvi_range (cfg_processing ?cfg2) = Some (Finite (6 / 10), Finite 1) \<and>
            evi2_range (cfg_processing ?cfg2) = Some (Finite (6 / 10), Finite 1) \<and>
            (\<not> broadcastable sample_layer ?tall \<or>
             (shape sample_layer = shape ?tall \<and> \<not> broadcastable sample_layer sample_layer))"
    using nb by (simp add: sample_proc_def)
  have n: "length (fst (run (\<lambda>_. 0) ?fs2 ?cfg2)) = 3" by code_simp
  from run_validates_nothing [OF lr2 pa meta_crs_sample_meta, THEN conjunct2, THEN conjunct2,
      THEN conjunct2, THEN conjunct2, THEN conjunct2, THEN mp, OF r2, of "\<lambda>_. 0"]
  have "snd (run (\<lambda>_. 0) ?fs2 ?cfg2) = Inl ValueError" by auto
  with lr pa first nb n show ?thesis by blast
qed

end
